theory Spec2Isabelle
  imports Main "HOL-Library.Word" "HOL-Library.Sublist" "HOL-Library.AList"
begin

section \<open>JavaScript strings\<close>

text \<open>
  A JavaScript string is a sequence of UTF-16 code units; \<open>length\<close>, \<open>startsWith\<close>,
  \<open>includes\<close>, \<open>trim\<close> and the regular expressions of the builders all work on code
  units.  \<open>js\<close> turns an ASCII literal into such a sequence.
\<close>

type_synonym jschar = "16 word"
type_synonym jsstring = "jschar list"

definition js :: "string \<Rightarrow> jsstring" where
  "js s = map of_char s"

abbreviation TAB :: jschar where "TAB \<equiv> 0x09"
abbreviation LF :: jschar where "LF \<equiv> 0x0A"
abbreviation CR :: jschar where "CR \<equiv> 0x0D"
abbreviation DQUOTE :: jschar where "DQUOTE \<equiv> 0x22"
abbreviation SQUOTE :: jschar where "SQUOTE \<equiv> 0x27"
abbreviation BACKSLASH :: jschar where "BACKSLASH \<equiv> 0x5C"
abbreviation BACKTICK :: jschar where "BACKTICK \<equiv> 0x60"
abbreviation LETTER_n :: jschar where "LETTER_n \<equiv> 0x6E"
abbreviation LETTER_r :: jschar where "LETTER_r \<equiv> 0x72"
abbreviation LETTER_t :: jschar where "LETTER_t \<equiv> 0x74"

definition startsWith :: "jsstring \<Rightarrow> jsstring \<Rightarrow> bool" where
  "startsWith s p = prefix p s"

definition endsWith :: "jsstring \<Rightarrow> jsstring \<Rightarrow> bool" where
  "endsWith s p = suffix p s"

definition includes_str :: "jsstring \<Rightarrow> jsstring \<Rightarrow> bool" where
  "includes_str s p = sublist p s"

text \<open>
  \<open>String.prototype.slice(b, e)\<close>: a negative index counts from the end, both indices
  are clamped to the string, and an empty range gives the empty string.
\<close>

definition sliceIndex :: "nat \<Rightarrow> int \<Rightarrow> nat" where
  "sliceIndex len i = (if i < 0 then nat (max (int len + i) 0) else min (nat i) len)"

definition slice :: "jsstring \<Rightarrow> int \<Rightarrow> int \<Rightarrow> jsstring" where
  "slice s b e =
     (let from = sliceIndex (length s) b; to = sliceIndex (length s) e
      in take (to - from) (drop from s))"

text \<open>
  \<open>String.prototype.trim\<close> removes the code units of the ECMAScript productions
  WhiteSpace and LineTerminator from both ends.
\<close>

definition isWhiteSpace :: "jschar \<Rightarrow> bool" where
  "isWhiteSpace c =
     (c = 0x09 \<or> c = 0x0A \<or> c = 0x0B \<or> c = 0x0C \<or> c = 0x0D \<or> c = 0x20 \<or> c = 0xA0 \<or>
      c = 0x1680 \<or> (0x2000 \<le> c \<and> c \<le> 0x200A) \<or> c = 0x2028 \<or> c = 0x2029 \<or>
      c = 0x202F \<or> c = 0x205F \<or> c = 0x3000 \<or> c = 0xFEFF)"

definition trim :: "jsstring \<Rightarrow> jsstring" where
  "trim s = rev (dropWhile isWhiteSpace (rev (dropWhile isWhiteSpace s)))"

text \<open>
  \<open>s.replace(/pat/g, rep)\<close> for a regular expression that is a literal, non-empty
  sequence of code units: scan from the left, replace each occurrence and continue
  after it.
\<close>

function replaceAll :: "jsstring \<Rightarrow> jsstring \<Rightarrow> jsstring \<Rightarrow> jsstring" where
  "replaceAll pat rep [] = []"
| "replaceAll pat rep (x # xs) =
     (if pat \<noteq> [] \<and> prefix pat (x # xs)
      then rep @ replaceAll pat rep (drop (length pat) (x # xs))
      else x # replaceAll pat rep xs)"
  by pat_completeness auto
termination
  by (relation "measure (\<lambda>(pat, rep, s). length s)") auto

section \<open>The fence regular expressions\<close>

text \<open>
  All regular expressions of the builders that look for a fenced block have the shape
  \<^verbatim>\<open>```(?:t1|...|tk)?\n?([\s\S]*?)```\<close>, where the tag group and the line feed may
  or may not be optional.  A backtracking matcher tries, at one position, the tag
  alternatives from left to right (and then, when the group is optional, no tag), for each
  of them the line feed first (and then, when it is optional, no line feed), and for each
  such header the shortest text that is followed by a closing fence.  \<open>headers\<close> lists the
  headers in that order of preference.
\<close>

definition fence :: jsstring where
  "fence = [BACKTICK, BACKTICK, BACKTICK]"

definition headers :: "jsstring list \<Rightarrow> bool \<Rightarrow> bool \<Rightarrow> jsstring list" where
  "headers tags tagOptional lfOptional =
     concat (map (\<lambda>t. (fence @ t @ [LF]) # (if lfOptional then [fence @ t] else []))
                 (tags @ (if tagOptional then [[]] else [])))"

text \<open>\<^verbatim>\<open>[\s\S]*?```\<close> at the start of a string: the length of the shortest text before a fence.\<close>

fun lazyFence :: "jsstring \<Rightarrow> nat option" where
  "lazyFence [] = None"
| "lazyFence (x # xs) =
     (if prefix fence (x # xs) then Some 0 else map_option Suc (lazyFence xs))"

text \<open>The whole fenced block at the start of a string: the length of the match.\<close>

fun fenceAt :: "jsstring list \<Rightarrow> jsstring \<Rightarrow> nat option" where
  "fenceAt [] s = None"
| "fenceAt (h # hs) s =
     (if prefix h s
      then (case lazyFence (drop (length h) s) of
              Some n \<Rightarrow> Some (length h + n + 3)
            | None \<Rightarrow> fenceAt hs s)
      else fenceAt hs s)"

text \<open>The header alone (\<^verbatim>\<open>```(?:t1|...|tk)?\n?\<close>) at the start of a string.\<close>

fun headerAt :: "jsstring list \<Rightarrow> jsstring \<Rightarrow> nat option" where
  "headerAt [] s = None"
| "headerAt (h # hs) s = (if prefix h s then Some (length h) else headerAt hs s)"

text \<open>\<^verbatim>\<open>```$\<close> at the start of a string: a fence that ends the string.\<close>

definition fenceAtEnd :: "jsstring \<Rightarrow> nat option" where
  "fenceAtEnd s = (if s = fence then Some 3 else None)"

text \<open>
  \<open>s.match(re)\<close> for a global regular expression \<open>re\<close>, given as the matcher at one
  position: all matches from left to right, each search starting where the previous
  match ended (one code unit further after an empty match).  JavaScript returns
  \<open>null\<close> where this list is empty.
\<close>

function matchAll :: "(jsstring \<Rightarrow> nat option) \<Rightarrow> jsstring \<Rightarrow> jsstring list" where
  "matchAll re [] = (case re [] of Some n \<Rightarrow> [[]] | None \<Rightarrow> [])"
| "matchAll re (x # xs) =
     (case re (x # xs) of
        Some n \<Rightarrow> take n (x # xs) # matchAll re (drop (max n 1) (x # xs))
      | None \<Rightarrow> matchAll re xs)"
  by pat_completeness auto
termination
  by (relation "measure (\<lambda>(re, s). length s)") auto

text \<open>
  \<open>s.replace(re, rep)\<close> for a regular expression without the global flag: only the
  leftmost match is replaced.
\<close>

fun replaceFirst :: "(jsstring \<Rightarrow> nat option) \<Rightarrow> jsstring \<Rightarrow> jsstring \<Rightarrow> jsstring" where
  "replaceFirst re rep [] = (case re [] of Some n \<Rightarrow> rep | None \<Rightarrow> [])"
| "replaceFirst re rep (x # xs) =
     (case re (x # xs) of
        Some n \<Rightarrow> rep @ drop n (x # xs)
      | None \<Rightarrow> x # replaceFirst re rep xs)"

section \<open>The code cleaner\<close>

text \<open>
  \<open>BackendBuilder.removeMarkdownCodeBlocks\<close> and \<open>FrontendBuilder.removeMarkdownCodeBlocks\<close>
  differ only in the tags of their regular expression, which is the parameter \<open>tags\<close>.
\<close>

definition backendStripTags :: "jsstring list" where
  "backendStripTags = map js [''motoko'', ''rust'', ''mo'', ''rs'']"

definition frontendStripTags :: "jsstring list" where
  "frontendStripTags = map js [''jsx'', ''tsx'', ''javascript'', ''typescript'', ''react'', ''nextjs'']"

definition removeMarkdownCodeBlocks :: "jsstring list \<Rightarrow> jsstring \<Rightarrow> jsstring" where
  "removeMarkdownCodeBlocks tags code =
     (case matchAll (fenceAt (headers tags True True)) code of
        [] \<Rightarrow> code
      | match # rest \<Rightarrow>
          replaceFirst fenceAtEnd [] (replaceFirst (headerAt (headers tags True True)) [] match))"

text \<open>
  The five replacements of the branch for escaped text, in the order of the source: the
  innermost is applied first, the one for the doubled backslash last.
\<close>

definition unescape :: "jsstring \<Rightarrow> jsstring" where
  "unescape s =
     replaceAll [BACKSLASH, BACKSLASH] [BACKSLASH]
       (replaceAll [BACKSLASH, DQUOTE] [DQUOTE]
         (replaceAll [BACKSLASH, LETTER_r] [CR]
           (replaceAll [BACKSLASH, LETTER_t] [TAB]
             (replaceAll [BACKSLASH, LETTER_n] [LF] s))))"

text \<open>
  A string has at most as many code units as the engine allows, and building a longer one
  throws a \<open>RangeError\<close>.  The bound belongs to the engine, not to the repository, so it is
  the parameter \<open>maxLen\<close> of the functions below.  The builders run in the extension host
  of VS Code, a 64-bit V8, whose bound is \<open>maxStringLength\<close>.  \<open>concatStrings\<close> is \<open>a + b\<close>,
  with \<open>None\<close> for the exception.
\<close>

definition maxStringLength :: nat where
  "maxStringLength = 2 ^ 29 - 24"

definition concatStrings :: "nat \<Rightarrow> jsstring \<Rightarrow> jsstring \<Rightarrow> jsstring option" where
  "concatStrings maxLen a b = (if length a + length b > maxLen then None else Some (a @ b))"

text \<open>
  The \<open>try\<close> block of \<open>cleanGeneratedCode\<close> of both builders, with \<open>None\<close> when it throws.
  Every step but the last returns a text that is not longer than its argument; the last,
  \<open>formattedCode += '\n'\<close>, throws when the trimmed text has the maximal length.
\<close>

definition tryClean :: "nat \<Rightarrow> jsstring list \<Rightarrow> jsstring \<Rightarrow> jsstring option" where
  "tryClean maxLen tags rawCode =
     (let formattedCode = rawCode;
          formattedCode = (if includes_str formattedCode [BACKSLASH, LETTER_n]
                           then unescape formattedCode else formattedCode);
          formattedCode = replaceAll [CR] [LF] (replaceAll [CR, LF] [LF] formattedCode);
          formattedCode =
            (if (startsWith formattedCode [DQUOTE] \<and> endsWith formattedCode [DQUOTE]) \<or>
                (startsWith formattedCode [SQUOTE] \<and> endsWith formattedCode [SQUOTE])
             then slice formattedCode 1 (-1) else formattedCode);
          formattedCode = removeMarkdownCodeBlocks tags formattedCode;
          formattedCode = trim formattedCode
      in if \<not> endsWith formattedCode [LF]
         then concatStrings maxLen formattedCode [LF]
         else Some formattedCode)"

text \<open>
  \<open>cleanGeneratedCode\<close> of both builders: the result of the \<open>try\<close> block, and in the
  \<open>catch\<close> branch the raw code.
\<close>

definition cleanGeneratedCode :: "nat \<Rightarrow> jsstring list \<Rightarrow> jsstring \<Rightarrow> jsstring" where
  "cleanGeneratedCode maxLen tags rawCode =
     (case tryClean maxLen tags rawCode of
        Some formattedCode \<Rightarrow> formattedCode
      | None \<Rightarrow> rawCode)"

definition BackendBuilder_cleanGeneratedCode :: "jsstring \<Rightarrow> jsstring" where
  "BackendBuilder_cleanGeneratedCode = cleanGeneratedCode maxStringLength backendStripTags"

definition FrontendBuilder_cleanGeneratedCode :: "jsstring \<Rightarrow> jsstring" where
  "FrontendBuilder_cleanGeneratedCode = cleanGeneratedCode maxStringLength frontendStripTags"

section \<open>Section extraction\<close>

text \<open>
  A JavaScript \<open>Map\<close> from strings to strings is an association list in insertion
  order; \<open>Map.prototype.set\<close> overwrites the value of a key that is present where it
  stands and appends a new key, which is \<open>AList.update\<close>.
\<close>

type_synonym strmap = "(jsstring \<times> jsstring) list"

text \<open>
  \<open>block.replace(/```tag\n?/, '').replace(/```$/, '').trim()\<close>, for the tag alternatives
  of the first regular expression.
\<close>

definition sectionCode :: "jsstring list \<Rightarrow> jsstring \<Rightarrow> jsstring" where
  "sectionCode tags block =
     trim (replaceFirst fenceAtEnd [] (replaceFirst (headerAt (headers tags False True)) [] block))"

definition backendSectionTags :: "jsstring list" where
  "backendSectionTags = map js [''motoko'', ''rust'', ''candid'', ''toml'']"

text \<open>The body of the loop over the blocks in \<open>BackendBuilder.extractMarkdownSections\<close>.\<close>

definition BackendBuilder_addSection :: "strmap \<Rightarrow> jsstring \<Rightarrow> strmap" where
  "BackendBuilder_addSection files block =
     (if includes_str block (js ''```motoko'')
      then AList.update (js ''main.mo'') (sectionCode [js ''motoko''] block) files
      else if includes_str block (js ''```rust'')
      then AList.update (js ''lib.rs'') (sectionCode [js ''rust''] block) files
      else if includes_str block (js ''```candid'')
      then AList.update (js ''backend.did'') (sectionCode [js ''candid''] block) files
      else if includes_str block (js ''```toml'')
      then AList.update (js ''Cargo.toml'') (sectionCode [js ''toml''] block) files
      else files)"

definition BackendBuilder_codeBlocks :: "jsstring \<Rightarrow> jsstring list" where
  "BackendBuilder_codeBlocks text = matchAll (fenceAt (headers backendSectionTags False False)) text"

definition BackendBuilder_extractMarkdownSections :: "jsstring \<Rightarrow> strmap" where
  "BackendBuilder_extractMarkdownSections text =
     (let files = foldl BackendBuilder_addSection [] (BackendBuilder_codeBlocks text)
      in if length files = 0 then AList.update (js ''main'') text files else files)"

definition frontendSectionTags :: "jsstring list" where
  "frontendSectionTags =
     map js [''jsx'', ''tsx'', ''javascript'', ''typescript'', ''css'', ''scss'', ''json'']"

text \<open>The body of the loop over the blocks in \<open>FrontendBuilder.extractMarkdownSections\<close>.\<close>

definition FrontendBuilder_addSection :: "strmap \<Rightarrow> jsstring \<Rightarrow> strmap" where
  "FrontendBuilder_addSection files block =
     (if includes_str block (js ''```jsx'') \<or> includes_str block (js ''```tsx'')
      then AList.update (if includes_str block (js ''```tsx'') then js ''App.tsx'' else js ''App.jsx'')
             (sectionCode [js ''jsx'', js ''tsx''] block) files
      else if includes_str block (js ''```css'') \<or> includes_str block (js ''```scss'')
      then AList.update
             (if includes_str block (js ''```scss'') then js ''index.scss'' else js ''globals.css'')
             (sectionCode [js ''css'', js ''scss''] block) files
      else if includes_str block (js ''```json'')
      then AList.update (js ''package.json'') (sectionCode [js ''json''] block) files
      else files)"

definition FrontendBuilder_codeBlocks :: "jsstring \<Rightarrow> jsstring list" where
  "FrontendBuilder_codeBlocks text = matchAll (fenceAt (headers frontendSectionTags False False)) text"

definition FrontendBuilder_extractMarkdownSections :: "jsstring \<Rightarrow> strmap" where
  "FrontendBuilder_extractMarkdownSections text =
     (let files = foldl FrontendBuilder_addSection [] (FrontendBuilder_codeBlocks text)
      in if length files = 0 then AList.update (js ''main'') text files else files)"

section \<open>Classification and the generated file sets\<close>

text \<open>
  The configuration types \<open>'motoko' | 'rust'\<close> and \<open>'react' | 'nextjs'\<close>.  The builders
  compare the stack with \<open>'motoko'\<close> and with \<open>'nextjs'\<close> and take the other branch
  otherwise.
\<close>

datatype backend = Motoko | Rust

datatype frontend = React | Nextjs

record fileEntry =
  filename :: jsstring
  content :: jsstring

record GeneratedFiles =
  mainFile :: fileEntry
  candidFile :: "fileEntry option"
  additionalFiles :: "fileEntry list option"

record GeneratedFrontendFiles =
  appFile :: fileEntry
  stylesFile :: "fileEntry option"
  additionalFrontendFiles :: "fileEntry list option"

definition isMainFile :: "jsstring \<Rightarrow> backend \<Rightarrow> bool" where
  "isMainFile name b =
     (if b = Motoko
      then endsWith name (js ''.mo'') \<and> (name = js ''main.mo'' \<or> includes_str name (js ''main''))
      else endsWith name (js ''.rs'') \<and> (name = js ''lib.rs'' \<or> includes_str name (js ''lib'')))"

definition isMainAppFile :: "jsstring \<Rightarrow> frontend \<Rightarrow> bool" where
  "isMainAppFile name f =
     (if f = Nextjs
      then includes_str name (js ''page.'') \<or> includes_str name (js ''App.'') \<or>
           endsWith name (js ''.tsx'') \<or> endsWith name (js ''.jsx'')
      else includes_str name (js ''App.'') \<or> includes_str name (js ''app.'') \<or>
           (endsWith name (js ''.jsx'') \<or> endsWith name (js ''.tsx'')))"

definition isStylesFile :: "jsstring \<Rightarrow> bool" where
  "isStylesFile name =
     (endsWith name (js ''.css'') \<or> endsWith name (js ''.scss'') \<or>
      endsWith name (js ''.sass'') \<or> includes_str name (js ''style''))"

text \<open>\<open>files.additionalFiles.push(e)\<close>, after the array was created when it was missing.\<close>

definition pushFile :: "fileEntry list option \<Rightarrow> fileEntry \<Rightarrow> fileEntry list option" where
  "pushFile files e = (case files of None \<Rightarrow> Some [e] | Some es \<Rightarrow> Some (es @ [e]))"

text \<open>The body of the loop over the extracted sections in \<open>extractFilesFromResponse\<close>.\<close>

definition BackendBuilder_assignFile :: "backend \<Rightarrow> GeneratedFiles \<Rightarrow> jsstring \<times> jsstring \<Rightarrow> GeneratedFiles" where
  "BackendBuilder_assignFile b files entry =
     (let name = fst entry; fileContent = snd entry
      in if isMainFile name b
         then files\<lparr>mainFile := \<lparr>filename = name, content = fileContent\<rparr>\<rparr>
         else if endsWith name (js ''.did'')
         then files\<lparr>candidFile := Some \<lparr>filename = name, content = fileContent\<rparr>\<rparr>
         else files\<lparr>additionalFiles :=
                pushFile (additionalFiles files) \<lparr>filename = name, content = fileContent\<rparr>\<rparr>)"

definition extractFilesFromResponse :: "jsstring \<Rightarrow> backend \<Rightarrow> GeneratedFiles" where
  "extractFilesFromResponse text b =
     (let files = \<lparr>mainFile = \<lparr>filename = (if b = Motoko then js ''main.mo'' else js ''lib.rs''),
                                content = []\<rparr>,
                   candidFile = None, additionalFiles = None\<rparr>;
          cleanContent = BackendBuilder_cleanGeneratedCode text;
          extractedFiles = BackendBuilder_extractMarkdownSections cleanContent
      in if length extractedFiles > 1
         then foldl (BackendBuilder_assignFile b) files extractedFiles
         else files\<lparr>mainFile := (mainFile files)\<lparr>content := cleanContent\<rparr>\<rparr>)"

text \<open>The body of the loop in \<open>extractFrontendFilesFromResponse\<close>.\<close>

definition FrontendBuilder_assignFile ::
    "frontend \<Rightarrow> GeneratedFrontendFiles \<Rightarrow> jsstring \<times> jsstring \<Rightarrow> GeneratedFrontendFiles" where
  "FrontendBuilder_assignFile f files entry =
     (let name = fst entry; fileContent = snd entry
      in if isMainAppFile name f
         then files\<lparr>appFile := \<lparr>filename = name, content = fileContent\<rparr>\<rparr>
         else if isStylesFile name
         then files\<lparr>stylesFile := Some \<lparr>filename = name, content = fileContent\<rparr>\<rparr>
         else files\<lparr>additionalFrontendFiles :=
                pushFile (additionalFrontendFiles files) \<lparr>filename = name, content = fileContent\<rparr>\<rparr>)"

definition extractFrontendFilesFromResponse :: "jsstring \<Rightarrow> frontend \<Rightarrow> GeneratedFrontendFiles" where
  "extractFrontendFilesFromResponse text f =
     (let files = \<lparr>appFile = \<lparr>filename = (if f = Nextjs then js ''page.tsx'' else js ''App.jsx''),
                               content = []\<rparr>,
                   stylesFile = None, additionalFrontendFiles = None\<rparr>;
          cleanContent = FrontendBuilder_cleanGeneratedCode text;
          extractedFiles = FrontendBuilder_extractMarkdownSections cleanContent
      in if length extractedFiles > 1
         then foldl (FrontendBuilder_assignFile f) files extractedFiles
         else files\<lparr>appFile := (appFile files)\<lparr>content := cleanContent\<rparr>\<rparr>)"

section \<open>Response normalisation\<close>

text \<open>
  The body of an API response (\<open>response.data\<close>) is a JSON value or, when it did not
  parse as JSON, a string.  An object is the list of its properties, each name once.  The
  builders look at a number only through its type and its truthiness, so an integer stands
  for it.
\<close>

datatype json =
    JNull
  | JBool bool
  | JNumber int
  | JString jsstring
  | JArray "json list"
  | JObject "(jsstring \<times> json) list"

datatype jstype = TObject | TBoolean | TNumber | TString

fun typeof :: "json \<Rightarrow> jstype" where
  "typeof JNull = TObject"
| "typeof (JBool b) = TBoolean"
| "typeof (JNumber n) = TNumber"
| "typeof (JString s) = TString"
| "typeof (JArray vs) = TObject"
| "typeof (JObject kvs) = TObject"

fun truthy :: "json \<Rightarrow> bool" where
  "truthy JNull = False"
| "truthy (JBool b) = b"
| "truthy (JNumber n) = (n \<noteq> 0)"
| "truthy (JString s) = (s \<noteq> [])"
| "truthy (JArray vs) = True"
| "truthy (JObject kvs) = True"

text \<open>
  \<open>v[key]\<close> for the property names the builders read (\<open>None\<close> is \<open>undefined\<close>): none of
  them is an index or a member of an array.
\<close>

fun getProp :: "json \<Rightarrow> jsstring \<Rightarrow> json option" where
  "getProp (JObject kvs) key = map_of kvs key"
| "getProp v key = None"

text \<open>\<open>v[key] && typeof v[key] === 'string'\<close>, with the string when the test holds.\<close>

definition stringProp :: "json \<Rightarrow> jsstring \<Rightarrow> jsstring option" where
  "stringProp v key =
     (case getProp v key of
        None \<Rightarrow> None
      | Some x \<Rightarrow> (if truthy x \<and> typeof x = TString
                   then (case x of JString s \<Rightarrow> Some s | _ \<Rightarrow> None) else None))"

text \<open>The loop over \<open>alternativeKeys\<close>, which stops at the first key that passes the test.\<close>

fun firstStringProp :: "json \<Rightarrow> jsstring list \<Rightarrow> jsstring option" where
  "firstStringProp v [] = None"
| "firstStringProp v (key # keys) =
     (case stringProp v key of Some s \<Rightarrow> Some s | None \<Rightarrow> firstStringProp v keys)"

definition parseAIResponse :: "json \<Rightarrow> backend \<Rightarrow> GeneratedFiles option" where
  "parseAIResponse responseData b =
     (let generatedCode =
            (if truthy responseData \<and> typeof responseData = TObject
             then (case stringProp responseData (js ''generatedCode'') of
                     Some s \<Rightarrow> Some s
                   | None \<Rightarrow> firstStringProp responseData
                               (map js [''code'', ''message'', ''data'', ''content'', ''result'']))
             else if typeof responseData = TString
             then (case responseData of JString s \<Rightarrow> Some s | _ \<Rightarrow> None)
             else None)
      in case generatedCode of
           None \<Rightarrow> None
         | Some code \<Rightarrow> (if code = [] then None else Some (extractFilesFromResponse code b)))"

definition parseAIFrontendResponse :: "json \<Rightarrow> frontend \<Rightarrow> GeneratedFrontendFiles option" where
  "parseAIFrontendResponse responseData f =
     (let generatedCode =
            (if truthy responseData \<and> typeof responseData = TObject
             then (case stringProp responseData (js ''code'') of
                     Some s \<Rightarrow> Some s
                   | None \<Rightarrow>
                      (case stringProp responseData (js ''generatedCode'') of
                         Some s \<Rightarrow> Some s
                       | None \<Rightarrow> firstStringProp responseData
                                   (map js [''content'', ''data'', ''result'', ''message''])))
             else if typeof responseData = TString
             then (case responseData of JString s \<Rightarrow> Some s | _ \<Rightarrow> None)
             else None)
      in case generatedCode of
           None \<Rightarrow> None
         | Some code \<Rightarrow> (if code = [] then None else Some (extractFrontendFilesFromResponse code f)))"

text \<open>
  The normaliser in the words of the specification: of an object the primary field when it
  holds a string, otherwise the first field of the fallback list that holds a string; a
  string itself; nothing for any other shape.  \<open>spec_normalize\<close> counts every string,
  \<open>spec_normalize_nonempty\<close> only the strings that are not empty.
\<close>

definition stringValue :: "bool \<Rightarrow> (jsstring \<times> json) list \<Rightarrow> jsstring \<Rightarrow> jsstring option" where
  "stringValue allowEmpty kvs key =
     (case map_of kvs key of
        Some (JString s) \<Rightarrow> (if allowEmpty \<or> s \<noteq> [] then Some s else None)
      | _ \<Rightarrow> None)"

definition normalizeBy :: "bool \<Rightarrow> jsstring list \<Rightarrow> json \<Rightarrow> jsstring option" where
  "normalizeBy allowEmpty names v =
     (case v of
        JObject kvs \<Rightarrow> (case List.map_filter (stringValue allowEmpty kvs) names of
                          [] \<Rightarrow> None | s # rest \<Rightarrow> Some s)
      | JString s \<Rightarrow> (if allowEmpty \<or> s \<noteq> [] then Some s else None)
      | _ \<Rightarrow> None)"

definition spec_normalize :: "jsstring list \<Rightarrow> json \<Rightarrow> jsstring option" where
  "spec_normalize = normalizeBy True"

definition spec_normalize_nonempty :: "jsstring list \<Rightarrow> json \<Rightarrow> jsstring option" where
  "spec_normalize_nonempty = normalizeBy False"

text \<open>The primary field followed by the fallback fields, for each builder.\<close>

definition backendFields :: "jsstring list" where
  "backendFields = map js [''generatedCode'', ''code'', ''message'', ''data'', ''content'', ''result'']"

definition frontendFields :: "jsstring list" where
  "frontendFields = map js [''code'', ''generatedCode'', ''content'', ''data'', ''result'', ''message'']"

text \<open>
  The primary-file rule in the words of the specification: the extension is the expected
  source extension, and the file name is the canonical main file name or its stem (the
  name without that extension) contains the canonical main stem.
\<close>

definition spec_isPrimary :: "jsstring \<Rightarrow> jsstring \<Rightarrow> jsstring \<Rightarrow> jsstring \<Rightarrow> bool" where
  "spec_isPrimary ext mainName mainStem name =
     (endsWith name ext \<and>
      (name = mainName \<or> includes_str (take (length name - length ext) name) mainStem))"

definition spec_isPrimaryBackend :: "backend \<Rightarrow> jsstring \<Rightarrow> bool" where
  "spec_isPrimaryBackend b name =
     (case b of
        Motoko \<Rightarrow> spec_isPrimary (js ''.mo'') (js ''main.mo'') (js ''main'') name
      | Rust \<Rightarrow> spec_isPrimary (js ''.rs'') (js ''lib.rs'') (js ''lib'') name)"

definition spec_isPrimaryFrontend :: "frontend \<Rightarrow> jsstring \<Rightarrow> bool" where
  "spec_isPrimaryFrontend f name =
     (case f of
        Nextjs \<Rightarrow> spec_isPrimary (js ''.tsx'') (js ''page.tsx'') (js ''page'') name
      | React \<Rightarrow> spec_isPrimary (js ''.jsx'') (js ''App.jsx'') (js ''App'') name)"

section \<open>Build sessions\<close>

datatype status = Pending | CreatingProject | BuildingBackend | BuildingFrontend | Completed | Error

record IcdAppConfig =
  frontendKind :: frontend
  backendKind :: backend
  description :: jsstring
  projectName :: jsstring

text \<open>
  \<open>BuildSession\<close>, with one more component than the interface of the source:
  \<open>statusLog\<close> records the values assigned to \<open>status\<close>, oldest first, so that
  properties of the writes can be stated.  No function reads it.
\<close>

record BuildSession =
  sessionId :: jsstring
  config :: IcdAppConfig
  backendCode :: "jsstring option"
  frontendCode :: "jsstring option"
  status :: status
  error :: "jsstring option"
  projectPath :: "jsstring option"
  statusLog :: "status list"

text \<open>\<open>session.status = v\<close>.\<close>

definition setStatus :: "status \<Rightarrow> BuildSession \<Rightarrow> BuildSession" where
  "setStatus v s = s\<lparr>status := v, statusLog := statusLog s @ [v]\<rparr>"

definition createBuildSession :: "jsstring \<Rightarrow> IcdAppConfig \<Rightarrow> BuildSession" where
  "createBuildSession sid cfg =
     \<lparr>sessionId = sid, config = cfg, backendCode = None, frontendCode = None,
      status = Pending, error = None, projectPath = None, statusLog = []\<rparr>"

text \<open>
  What the world answers during one build: the path returned by \<open>createDfxProject\<close>
  (\<open>None\<close> for \<open>null\<close>), the bodies of the two API responses (\<open>None\<close> when the request
  failed), and the results of the functions that write files.  Each of these functions
  catches its own exceptions and returns \<open>null\<close> or \<open>false\<close> instead, so none reaches the
  \<open>catch\<close> of \<open>createFullBackend\<close> or \<open>createFullFrontend\<close>; the logger is taken not to
  throw.  The results of \<open>updateDfxConfig\<close> and \<open>updatePackageJson\<close> are only logged.
\<close>

record outcomes =
  createDfxProject_result :: "jsstring option"
  backendResponse :: "json option"
  replaceBackendCode_result :: bool
  updateDfxConfig_result :: bool
  frontendResponse :: "json option"
  replaceFrontendCode_result :: bool
  updatePackageJson_result :: bool

text \<open>\<open>!x\<close> for an optional string: \<open>null\<close>, \<open>undefined\<close> and the empty string are falsy.\<close>

definition falsyString :: "jsstring option \<Rightarrow> bool" where
  "falsyString x = (case x of None \<Rightarrow> True | Some s \<Rightarrow> s = [])"

definition buildBackendCode :: "outcomes \<Rightarrow> BuildSession \<Rightarrow> GeneratedFiles option \<times> BuildSession" where
  "buildBackendCode oc s =
     (case backendResponse oc of
        None \<Rightarrow> (None, s)
      | Some body \<Rightarrow>
          (case parseAIResponse body (backendKind (config s)) of
             Some generatedFiles \<Rightarrow>
               (Some generatedFiles, s\<lparr>backendCode := Some (content (mainFile generatedFiles))\<rparr>)
           | None \<Rightarrow> (None, s)))"

definition createFullBackend :: "outcomes \<Rightarrow> BuildSession \<Rightarrow> bool \<times> BuildSession" where
  "createFullBackend oc s0 =
     (let s = setStatus CreatingProject s0
      in if falsyString (createDfxProject_result oc)
         then (False, (setStatus Error s)\<lparr>error := Some (js ''Failed to create project'')\<rparr>)
         else
           (let s = s\<lparr>projectPath := createDfxProject_result oc\<rparr>;
                s = setStatus BuildingBackend s;
                (generatedFiles, s) = buildBackendCode oc s
            in if generatedFiles = None
               then (False, (setStatus Error s)\<lparr>error := Some (js ''Failed to generate backend code'')\<rparr>)
               else if \<not> replaceBackendCode_result oc
               then (False, (setStatus Error s)\<lparr>error := Some (js ''Failed to replace backend code'')\<rparr>)
               else (True, setStatus Completed s)))"

definition buildFrontendCode :: "outcomes \<Rightarrow> BuildSession \<Rightarrow> GeneratedFrontendFiles option" where
  "buildFrontendCode oc s =
     (if description (config s) = [] \<or> sessionId s = [] then None
      else (case frontendResponse oc of
              None \<Rightarrow> None
            | Some body \<Rightarrow> parseAIFrontendResponse body (frontendKind (config s))))"

definition createFullFrontend :: "outcomes \<Rightarrow> BuildSession \<Rightarrow> bool \<times> BuildSession" where
  "createFullFrontend oc s0 =
     (if falsyString (projectPath s0)
      then (False, s0\<lparr>error := Some (js ''Project path not available for frontend creation'')\<rparr>)
      else
        (let s = setStatus BuildingFrontend s0
         in if buildFrontendCode oc s = None
            then (False, s\<lparr>error := Some (js ''Failed to generate frontend code'')\<rparr>)
            else if \<not> replaceFrontendCode_result oc
            then (False, s\<lparr>error := Some (js ''Failed to replace frontend code'')\<rparr>)
            else (True, s)))"

text \<open>
  \<open>IcdAppExtension.executeBuildPipeline\<close>: \<open>Inl\<close> is the message of the error that it
  throws again after its \<open>catch\<close> has written the session.  The progress reports and the
  dialogue that follows the write of \<open>completed\<close> are taken to succeed and are left out.
\<close>

definition executeBuildPipeline :: "outcomes \<Rightarrow> BuildSession \<Rightarrow> (jsstring + unit) \<times> BuildSession" where
  "executeBuildPipeline oc s0 =
     (let (success, s) = createFullBackend oc s0
      in if \<not> success
         then (let message = (case error s of
                                 None \<Rightarrow> js ''Backend creation failed''
                               | Some e \<Rightarrow> (if e = [] then js ''Backend creation failed'' else e));
                   s = setStatus Error s;
                   s = s\<lparr>error := Some message\<rparr>
               in (Inl message, s))
         else (let s = setStatus BuildingFrontend s;
                   (frontendSuccess, s) = createFullFrontend oc s;
                   s = setStatus Completed s
               in (Inr (), s)))"

text \<open>
  The life cycle in the words of the specification.  A write is a step of the life cycle
  when the session was not in a terminal state and the new status is the next one of the
  chain, or \<open>error\<close>.
\<close>

fun nextStatus :: "status \<Rightarrow> status option" where
  "nextStatus Pending = Some CreatingProject"
| "nextStatus CreatingProject = Some BuildingBackend"
| "nextStatus BuildingBackend = Some BuildingFrontend"
| "nextStatus BuildingFrontend = Some Completed"
| "nextStatus Completed = None"
| "nextStatus Error = None"

definition terminal :: "status \<Rightarrow> bool" where
  "terminal st = (st = Completed \<or> st = Error)"

fun rank :: "status \<Rightarrow> nat" where
  "rank Pending = 0"
| "rank CreatingProject = 1"
| "rank BuildingBackend = 2"
| "rank BuildingFrontend = 3"
| "rank Completed = 4"
| "rank Error = 5"

definition stepWrite :: "status \<Rightarrow> status \<Rightarrow> bool" where
  "stepWrite old new = (\<not> terminal old \<and> (new = Error \<or> nextStatus old = Some new))"

definition forwardWrite :: "status \<Rightarrow> status \<Rightarrow> bool" where
  "forwardWrite old new = (\<not> terminal old \<and> (new = Error \<or> rank old < rank new))"

text \<open>Every write of a log, made one after the other from a first status, satisfies \<open>ok\<close>.\<close>

fun allWrites :: "(status \<Rightarrow> status \<Rightarrow> bool) \<Rightarrow> status \<Rightarrow> status list \<Rightarrow> bool" where
  "allWrites ok st [] = True"
| "allWrites ok st (w # ws) = (ok st w \<and> allWrites ok w ws)"

section \<open>The entries of a generated file set\<close>

definition optList :: "'a option \<Rightarrow> 'a list" where
  "optList x = (case x of None \<Rightarrow> [] | Some e \<Rightarrow> [e])"

definition optFiles :: "'a list option \<Rightarrow> 'a list" where
  "optFiles x = (case x of None \<Rightarrow> [] | Some es \<Rightarrow> es)"

text \<open>All entries of a file set: the primary file, the interface or styles file, the additional files.\<close>

definition backendEntries :: "GeneratedFiles \<Rightarrow> fileEntry list" where
  "backendEntries g = mainFile g # optList (candidFile g) @ optFiles (additionalFiles g)"

definition frontendEntries :: "GeneratedFrontendFiles \<Rightarrow> fileEntry list" where
  "frontendEntries g = appFile g # optList (stylesFile g) @ optFiles (additionalFrontendFiles g)"

text \<open>
  The loop invariants of \<open>extractFilesFromResponse\<close> and
  \<open>extractFrontendFilesFromResponse\<close>, where \<open>seen\<close> holds the keys already visited: each
  slot holds only names of its own class, and the additional files have different names.
\<close>

definition backendInv :: "backend \<Rightarrow> jsstring set \<Rightarrow> GeneratedFiles \<Rightarrow> bool" where
  "backendInv b seen g =
     (isMainFile (filename (mainFile g)) b \<and>
      list_all (\<lambda>e. \<not> isMainFile (filename e) b \<and> endsWith (filename e) (js ''.did''))
        (optList (candidFile g)) \<and>
      list_all (\<lambda>e. \<not> isMainFile (filename e) b \<and> \<not> endsWith (filename e) (js ''.did'') \<and>
                    filename e \<in> seen)
        (optFiles (additionalFiles g)) \<and>
      distinct (map filename (optFiles (additionalFiles g))))"

definition frontendInv :: "frontend \<Rightarrow> jsstring set \<Rightarrow> GeneratedFrontendFiles \<Rightarrow> bool" where
  "frontendInv f seen g =
     (isMainAppFile (filename (appFile g)) f \<and>
      list_all (\<lambda>e. \<not> isMainAppFile (filename e) f \<and> isStylesFile (filename e))
        (optList (stylesFile g)) \<and>
      list_all (\<lambda>e. \<not> isMainAppFile (filename e) f \<and> \<not> isStylesFile (filename e) \<and>
                    filename e \<in> seen)
        (optFiles (additionalFrontendFiles g)) \<and>
      distinct (map filename (optFiles (additionalFrontendFiles g))))"

section \<open>A build in which every step succeeds\<close>

definition okOutcomes :: outcomes where
  "okOutcomes =
     \<lparr>createDfxProject_result = Some (js ''/work/app''),
      backendResponse = Some (JObject [(js ''generatedCode'', JString (js ''fn x(){}''))]),
      replaceBackendCode_result = True,
      updateDfxConfig_result = True,
      frontendResponse = Some (JString (js ''export default 1'')),
      replaceFrontendCode_result = True,
      updatePackageJson_result = True\<rparr>"

definition demoConfig :: IcdAppConfig where
  "demoConfig =
     \<lparr>frontendKind = React, backendKind = Rust, description = js ''demo'', projectName = js ''app''\<rparr>"

section \<open>Tags without backticks\<close>

text \<open>The tags of the regular expressions are words: none of them contains a backtick.\<close>

definition plainTags :: "jsstring list \<Rightarrow> bool" where
  "plainTags tags = list_all (\<lambda>t. BACKTICK \<notin> set t) tags"

section \<open>Facts for evaluating the functions on given inputs\<close>

lemmas string_eval = js_def startsWith_def endsWith_def includes_str_def slice_def sliceIndex_def
  trim_def isWhiteSpace_def suffix_to_prefix sublist_code Let_def

lemmas fence_eval = fence_def headers_def fenceAtEnd_def

lemmas clean_eval = removeMarkdownCodeBlocks_def unescape_def cleanGeneratedCode_def
  tryClean_def concatStrings_def maxStringLength_def
  BackendBuilder_cleanGeneratedCode_def FrontendBuilder_cleanGeneratedCode_def
  backendStripTags_def frontendStripTags_def

lemmas extract_eval = sectionCode_def backendSectionTags_def frontendSectionTags_def
  BackendBuilder_addSection_def BackendBuilder_codeBlocks_def
  BackendBuilder_extractMarkdownSections_def
  FrontendBuilder_addSection_def FrontendBuilder_codeBlocks_def
  FrontendBuilder_extractMarkdownSections_def
  isMainFile_def isMainAppFile_def isStylesFile_def pushFile_def
  BackendBuilder_assignFile_def FrontendBuilder_assignFile_def
  extractFilesFromResponse_def extractFrontendFilesFromResponse_def

lemmas parse_eval = stringProp_def parseAIResponse_def parseAIFrontendResponse_def

section \<open>End-to-end scenarios\<close>

text \<open>
  Claim C1.  For a rust backend, the response object whose field \<open>generatedCode\<close> holds a
  rust fence around \<open>fn x(){}\<close> (with real line feeds after the tag and before the closing
  fence) is parsed into the file set with the primary file \<open>lib.rs\<close>, whose content is
  \<open>fn x(){}\<close> followed by one line feed, no candid file and no additional files.
\<close>

theorem rust_fence_scenario:
  "parseAIResponse
     (JObject [(js ''generatedCode'', JString (js ''```rust\<newline>fn x(){}\<newline>```''))]) Rust
   = Some \<lparr>mainFile = \<lparr>filename = js ''lib.rs'', content = js ''fn x(){}\<newline>''\<rparr>,
            candidFile = None, additionalFiles = None\<rparr>"
  by (simp add: string_eval fence_eval clean_eval extract_eval parse_eval)

text \<open>
  Claim C8, as stated, fails.  The field \<open>code\<close> holds the ten code units
  backslash, n, \<open>// hello\<close>, backslash, n.  The cleaned content is not line feed,
  \<open>// hello\<close>, line feed: neither the result of the cleaner nor the content of the primary
  file is that text.
\<close>

theorem double_escaped_counterexample:
  "BackendBuilder_cleanGeneratedCode ([BACKSLASH, LETTER_n] @ js ''// hello'' @ [BACKSLASH, LETTER_n])
     \<noteq> [LF] @ js ''// hello'' @ [LF] \<and>
   map_option (\<lambda>g. content (mainFile g))
     (parseAIResponse
        (JObject [(js ''code'',
                   JString ([BACKSLASH, LETTER_n] @ js ''// hello'' @ [BACKSLASH, LETTER_n]))])
        Rust)
     \<noteq> Some ([LF] @ js ''// hello'' @ [LF])"
  by (simp add: string_eval fence_eval clean_eval extract_eval parse_eval)

text \<open>
  Claim C8, amended.  Parsing the double-escaped response object gives, for either backend,
  the default-named primary file whose content is the comment \<open>// hello\<close> followed by one
  real line feed: both escaped line feeds become real ones, trimming then removes them at
  both ends, and one trailing line feed is added.
\<close>

theorem double_escaped_scenario:
  "parseAIResponse
     (JObject [(js ''code'',
                JString ([BACKSLASH, LETTER_n] @ js ''// hello'' @ [BACKSLASH, LETTER_n]))]) b
   = Some \<lparr>mainFile = \<lparr>filename = (if b = Motoko then js ''main.mo'' else js ''lib.rs''),
                          content = js ''// hello\<newline>''\<rparr>,
            candidFile = None, additionalFiles = None\<rparr>"
  by (simp add: string_eval fence_eval clean_eval extract_eval parse_eval)

section \<open>Section extraction and the single-section rule\<close>

text \<open>
  Claim C5.  For every text, \<open>extractMarkdownSections\<close> of either builder returns at least
  one entry; and when its regular expression finds no tagged fence in the text, it returns
  exactly the entry that maps the key \<open>main\<close> to the text itself.
\<close>

theorem sections_nonempty_sentinel:
  "1 \<le> length (BackendBuilder_extractMarkdownSections t) \<and>
   1 \<le> length (FrontendBuilder_extractMarkdownSections t) \<and>
   (BackendBuilder_codeBlocks t = [] \<longrightarrow>
      BackendBuilder_extractMarkdownSections t = [(js ''main'', t)]) \<and>
   (FrontendBuilder_codeBlocks t = [] \<longrightarrow>
      FrontendBuilder_extractMarkdownSections t = [(js ''main'', t)])"
  by (auto simp add: BackendBuilder_extractMarkdownSections_def
      FrontendBuilder_extractMarkdownSections_def Let_def Suc_le_eq)

theorem sections_nonempty_sentinel_witness:
  "BackendBuilder_codeBlocks (js ''fn x(){}'') = [] \<and>
   FrontendBuilder_codeBlocks (js ''fn x(){}'') = [] \<and>
   BackendBuilder_extractMarkdownSections (js ''fn x(){}'') = [(js ''main'', js ''fn x(){}'')] \<and>
   FrontendBuilder_extractMarkdownSections (js ''fn x(){}'') = [(js ''main'', js ''fn x(){}'')]"
proof -
  have b: "BackendBuilder_codeBlocks (js ''fn x(){}'') = []"
    by (simp add: BackendBuilder_codeBlocks_def backendSectionTags_def string_eval fence_eval)
  have f: "FrontendBuilder_codeBlocks (js ''fn x(){}'') = []"
    by (simp add: FrontendBuilder_codeBlocks_def frontendSectionTags_def string_eval fence_eval)
  from b f sections_nonempty_sentinel [of "js ''fn x(){}''"] show ?thesis by blast
qed

text \<open>
  Claim C10.  Whenever section extraction returns at most one entry for the cleaned text,
  \<open>extractFilesFromResponse\<close> and \<open>extractFrontendFilesFromResponse\<close> put the whole cleaned
  text into the default-named primary file (\<open>main.mo\<close>, \<open>lib.rs\<close>, \<open>page.tsx\<close>, \<open>App.jsx\<close>)
  and produce neither an interface or styles file nor additional files, whatever the key of
  the one extracted section is.
\<close>

theorem single_section_goes_to_primary:
  "(length (BackendBuilder_extractMarkdownSections (BackendBuilder_cleanGeneratedCode t)) \<le> 1 \<longrightarrow>
      extractFilesFromResponse t b =
        \<lparr>mainFile = \<lparr>filename = (case b of Motoko \<Rightarrow> js ''main.mo'' | Rust \<Rightarrow> js ''lib.rs''),
                      content = BackendBuilder_cleanGeneratedCode t\<rparr>,
         candidFile = None, additionalFiles = None\<rparr>) \<and>
   (length (FrontendBuilder_extractMarkdownSections (FrontendBuilder_cleanGeneratedCode t)) \<le> 1 \<longrightarrow>
      extractFrontendFilesFromResponse t f =
        \<lparr>appFile = \<lparr>filename = (case f of Nextjs \<Rightarrow> js ''page.tsx'' | React \<Rightarrow> js ''App.jsx''),
                     content = FrontendBuilder_cleanGeneratedCode t\<rparr>,
         stylesFile = None, additionalFrontendFiles = None\<rparr>)"
  by (cases b; cases f)
     (simp_all add: extractFilesFromResponse_def extractFrontendFilesFromResponse_def Let_def)

theorem single_section_goes_to_primary_witness:
  "length (BackendBuilder_extractMarkdownSections
             (BackendBuilder_cleanGeneratedCode (js ''```candid\<newline>service : {}\<newline>```''))) \<le> 1 \<and>
   length (FrontendBuilder_extractMarkdownSections
             (FrontendBuilder_cleanGeneratedCode (js ''```candid\<newline>service : {}\<newline>```''))) \<le> 1 \<and>
   extractFilesFromResponse (js ''```candid\<newline>service : {}\<newline>```'') Rust =
     \<lparr>mainFile = \<lparr>filename = js ''lib.rs'', content = js ''candid\<newline>service : {}\<newline>''\<rparr>,
      candidFile = None, additionalFiles = None\<rparr> \<and>
   extractFrontendFilesFromResponse (js ''```candid\<newline>service : {}\<newline>```'') Nextjs =
     \<lparr>appFile = \<lparr>filename = js ''page.tsx'', content = js ''candid\<newline>service : {}\<newline>''\<rparr>,
      stylesFile = None, additionalFrontendFiles = None\<rparr>"
proof -
  have cb: "BackendBuilder_cleanGeneratedCode (js ''```candid\<newline>service : {}\<newline>```'')
              = js ''candid\<newline>service : {}\<newline>''"
    by (simp add: string_eval fence_eval clean_eval)
  have cf: "FrontendBuilder_cleanGeneratedCode (js ''```candid\<newline>service : {}\<newline>```'')
              = js ''candid\<newline>service : {}\<newline>''"
    by (simp add: string_eval fence_eval clean_eval)
  have hb: "length (BackendBuilder_extractMarkdownSections (js ''candid\<newline>service : {}\<newline>'')) \<le> 1"
    by (simp add: string_eval fence_eval extract_eval)
  have hf: "length (FrontendBuilder_extractMarkdownSections (js ''candid\<newline>service : {}\<newline>'')) \<le> 1"
    by (simp add: string_eval fence_eval extract_eval)
  from single_section_goes_to_primary
         [of "js ''```candid\<newline>service : {}\<newline>```''" Rust Nextjs] cb cf hb hf
  show ?thesis by simp
qed

section \<open>File names of a generated file set\<close>

lemma distinct_keys_foldl_update:
  "distinct (map fst acc) \<Longrightarrow> (\<And>m x. distinct (map fst m) \<Longrightarrow> distinct (map fst (f m x)))
   \<Longrightarrow> distinct (map fst (foldl f acc xs))"
  by (induction xs arbitrary: acc) auto

lemma BackendBuilder_addSection_distinct:
  "distinct (map fst m) \<Longrightarrow> distinct (map fst (BackendBuilder_addSection m x))"
  by (simp add: BackendBuilder_addSection_def distinct_update)

lemma FrontendBuilder_addSection_distinct:
  "distinct (map fst m) \<Longrightarrow> distinct (map fst (FrontendBuilder_addSection m x))"
  by (simp add: FrontendBuilder_addSection_def distinct_update)

lemma BackendBuilder_sections_distinct:
  "distinct (map fst (BackendBuilder_extractMarkdownSections t))"
  unfolding BackendBuilder_extractMarkdownSections_def Let_def
  by (simp add: distinct_update distinct_keys_foldl_update BackendBuilder_addSection_distinct)

lemma FrontendBuilder_sections_distinct:
  "distinct (map fst (FrontendBuilder_extractMarkdownSections t))"
  unfolding FrontendBuilder_extractMarkdownSections_def Let_def
  by (simp add: distinct_update distinct_keys_foldl_update FrontendBuilder_addSection_distinct)

lemma backendInv_step:
  "backendInv b seen g \<Longrightarrow> fst x \<notin> seen \<Longrightarrow>
   backendInv b (insert (fst x) seen) (BackendBuilder_assignFile b g x)"
  unfolding backendInv_def BackendBuilder_assignFile_def Let_def
  by (cases "additionalFiles g")
     (auto simp add: optList_def optFiles_def pushFile_def list_all_iff)

lemma backendInv_foldl:
  "backendInv b seen g \<Longrightarrow> distinct (map fst xs) \<Longrightarrow> seen \<inter> set (map fst xs) = {} \<Longrightarrow>
   backendInv b (seen \<union> set (map fst xs)) (foldl (BackendBuilder_assignFile b) g xs)"
proof (induction xs arbitrary: seen g)
  case Nil
  then show ?case by simp
next
  case (Cons x xs)
  from Cons.prems have "backendInv b (insert (fst x) seen) (BackendBuilder_assignFile b g x)"
    by (intro backendInv_step) auto
  moreover from Cons.prems have "distinct (map fst xs)" "insert (fst x) seen \<inter> set (map fst xs) = {}"
    by auto
  ultimately have "backendInv b (insert (fst x) seen \<union> set (map fst xs))
      (foldl (BackendBuilder_assignFile b) (BackendBuilder_assignFile b g x) xs)"
    by (rule Cons.IH)
  then show ?case by simp
qed

lemma backendInv_distinct:
  "backendInv b seen g \<Longrightarrow> distinct (map filename (backendEntries g))"
  unfolding backendInv_def backendEntries_def
  by (cases "candidFile g") (auto simp add: optList_def list_all_iff)

lemma isMainFile_default: "isMainFile (if b = Motoko then js ''main.mo'' else js ''lib.rs'') b"
  by (cases b) (simp_all add: isMainFile_def string_eval)

lemma backend_distinct: "distinct (map filename (backendEntries (extractFilesFromResponse t b)))"
proof -
  let ?init = "\<lparr>mainFile = \<lparr>filename = (if b = Motoko then js ''main.mo'' else js ''lib.rs''), content = []\<rparr>,
                candidFile = None, additionalFiles = None\<rparr>"
  have i: "backendInv b {} ?init"
    using isMainFile_default [of b] by (simp add: backendInv_def optList_def optFiles_def)
  have "backendInv b ({} \<union> set (map fst xs)) (foldl (BackendBuilder_assignFile b) ?init xs)"
    if "distinct (map fst xs)" for xs
    using i that by (intro backendInv_foldl) auto
  then have l: "distinct (map filename (backendEntries (foldl (BackendBuilder_assignFile b) ?init xs)))"
    if "distinct (map fst xs)" for xs
    using that backendInv_distinct by blast
  show ?thesis
    unfolding extractFilesFromResponse_def Let_def
    using l [OF BackendBuilder_sections_distinct]
    by (simp add: backendEntries_def optList_def optFiles_def)
qed


lemma frontendInv_step:
  "frontendInv f seen g \<Longrightarrow> fst x \<notin> seen \<Longrightarrow>
   frontendInv f (insert (fst x) seen) (FrontendBuilder_assignFile f g x)"
  unfolding frontendInv_def FrontendBuilder_assignFile_def Let_def
  by (cases "additionalFrontendFiles g")
     (auto simp add: optList_def optFiles_def pushFile_def list_all_iff)

lemma frontendInv_foldl:
  "frontendInv f seen g \<Longrightarrow> distinct (map fst xs) \<Longrightarrow> seen \<inter> set (map fst xs) = {} \<Longrightarrow>
   frontendInv f (seen \<union> set (map fst xs)) (foldl (FrontendBuilder_assignFile f) g xs)"
proof (induction xs arbitrary: seen g)
  case Nil
  then show ?case by simp
next
  case (Cons x xs)
  from Cons.prems have "frontendInv f (insert (fst x) seen) (FrontendBuilder_assignFile f g x)"
    by (intro frontendInv_step) auto
  moreover from Cons.prems have "distinct (map fst xs)" "insert (fst x) seen \<inter> set (map fst xs) = {}"
    by auto
  ultimately have "frontendInv f (insert (fst x) seen \<union> set (map fst xs))
      (foldl (FrontendBuilder_assignFile f) (FrontendBuilder_assignFile f g x) xs)"
    by (rule Cons.IH)
  then show ?case by simp
qed

lemma frontendInv_distinct:
  "frontendInv f seen g \<Longrightarrow> distinct (map filename (frontendEntries g))"
  unfolding frontendInv_def frontendEntries_def
  by (cases "stylesFile g") (auto simp add: optList_def list_all_iff)

lemma isMainAppFile_default: "isMainAppFile (if f = Nextjs then js ''page.tsx'' else js ''App.jsx'') f"
  by (cases f) (simp_all add: isMainAppFile_def string_eval)

lemma frontend_distinct:
  "distinct (map filename (frontendEntries (extractFrontendFilesFromResponse t f)))"
proof -
  let ?init = "\<lparr>appFile = \<lparr>filename = (if f = Nextjs then js ''page.tsx'' else js ''App.jsx''), content = []\<rparr>,
                stylesFile = None, additionalFrontendFiles = None\<rparr>"
  have i: "frontendInv f {} ?init"
    using isMainAppFile_default [of f] by (simp add: frontendInv_def optList_def optFiles_def)
  have "frontendInv f ({} \<union> set (map fst xs)) (foldl (FrontendBuilder_assignFile f) ?init xs)"
    if "distinct (map fst xs)" for xs
    using i that by (intro frontendInv_foldl) auto
  then have l: "distinct (map filename (frontendEntries (foldl (FrontendBuilder_assignFile f) ?init xs)))"
    if "distinct (map fst xs)" for xs
    using that frontendInv_distinct by blast
  show ?thesis
    unfolding extractFrontendFilesFromResponse_def Let_def
    using l [OF FrontendBuilder_sections_distinct]
    by (simp add: frontendEntries_def optList_def optFiles_def)
qed

text \<open>
  Claim C9.  For every text and every stack, the file set returned by
  \<open>extractFilesFromResponse\<close> and by \<open>extractFrontendFilesFromResponse\<close> has a primary
  file among its entries, and no two of its entries (the primary file, the candid or styles
  file, the additional files) have the same file name.
\<close>

theorem generated_files_distinct_names:
  "mainFile (extractFilesFromResponse t b) \<in> set (backendEntries (extractFilesFromResponse t b)) \<and>
   distinct (map filename (backendEntries (extractFilesFromResponse t b))) \<and>
   appFile (extractFrontendFilesFromResponse t f)
     \<in> set (frontendEntries (extractFrontendFilesFromResponse t f)) \<and>
   distinct (map filename (frontendEntries (extractFrontendFilesFromResponse t f)))"
  by (simp add: backend_distinct frontend_distinct)
     (simp add: backendEntries_def frontendEntries_def)

section \<open>The response normaliser\<close>

lemma stringProp_object: "stringProp (JObject kvs) k = stringValue False kvs k"
  by (simp add: stringProp_def stringValue_def split: option.splits json.splits)

lemma stringProp_array: "stringProp (JArray vs) k = None"
  by (simp add: stringProp_def)

lemma stringValue_nonempty: "stringValue False kvs k = Some s \<Longrightarrow> s \<noteq> []"
  by (auto simp add: stringValue_def split: option.splits json.splits if_splits)

lemma firstStringProp_object:
  "firstStringProp (JObject kvs) ks =
     (case List.map_filter (stringValue False kvs) ks of [] \<Rightarrow> None | s # rest \<Rightarrow> Some s)"
  by (induction ks) (simp_all add: stringProp_object map_filter_simps split: option.splits)

lemma firstStringProp_array: "firstStringProp (JArray vs) ks = None"
  by (induction ks) (simp_all add: stringProp_array)

lemma map_filter_head_nonempty:
  "List.map_filter (stringValue False kvs) ks = s # rest \<Longrightarrow> s \<noteq> []"
proof (induction ks)
  case Nil
  then show ?case by (simp add: map_filter_simps)
next
  case (Cons k ks)
  then show ?case
    by (cases "stringValue False kvs k") (auto simp add: map_filter_simps dest: stringValue_nonempty)
qed

lemma backend_normalize:
  "parseAIResponse v b =
     map_option (\<lambda>c. extractFilesFromResponse c b) (spec_normalize_nonempty backendFields v)"
proof (cases v)
  case (JObject kvs)
  show ?thesis
  proof (cases "List.map_filter (stringValue False kvs) backendFields")
    case Nil
    then show ?thesis using JObject
      by (simp add: parseAIResponse_def spec_normalize_nonempty_def normalizeBy_def backendFields_def
          stringProp_object firstStringProp_object map_filter_simps split: option.splits list.splits)
  next
    case (Cons s rest)
    then have "s \<noteq> []" by (rule map_filter_head_nonempty)
    with Cons show ?thesis using JObject
      by (simp add: parseAIResponse_def spec_normalize_nonempty_def normalizeBy_def backendFields_def
          stringProp_object firstStringProp_object map_filter_simps split: option.splits list.splits)
  qed
qed (simp_all add: parseAIResponse_def spec_normalize_nonempty_def normalizeBy_def
      stringProp_array firstStringProp_array)

lemma frontend_normalize:
  "parseAIFrontendResponse v f =
     map_option (\<lambda>c. extractFrontendFilesFromResponse c f) (spec_normalize_nonempty frontendFields v)"
proof (cases v)
  case (JObject kvs)
  show ?thesis
  proof (cases "List.map_filter (stringValue False kvs) frontendFields")
    case Nil
    then show ?thesis using JObject
      by (simp add: parseAIFrontendResponse_def spec_normalize_nonempty_def normalizeBy_def frontendFields_def
          stringProp_object firstStringProp_object map_filter_simps split: option.splits list.splits)
  next
    case (Cons s rest)
    then have "s \<noteq> []" by (rule map_filter_head_nonempty)
    with Cons show ?thesis using JObject
      by (simp add: parseAIFrontendResponse_def spec_normalize_nonempty_def normalizeBy_def frontendFields_def
          stringProp_object firstStringProp_object map_filter_simps split: option.splits list.splits)
  qed
qed (simp_all add: parseAIFrontendResponse_def spec_normalize_nonempty_def normalizeBy_def
      stringProp_array firstStringProp_array)

text \<open>
  Claim C2, as stated, fails.  A response that is the empty string is a string, so the
  normaliser of the claim uses it as the raw code; both parsers return failure.
\<close>

theorem normalizer_counterexample:
  "spec_normalize backendFields (JString []) = Some [] \<and>
   parseAIResponse (JString []) Rust = None \<and>
   parseAIResponse (JString []) Rust
     \<noteq> map_option (\<lambda>c. extractFilesFromResponse c Rust) (spec_normalize backendFields (JString [])) \<and>
   parseAIFrontendResponse (JString []) Nextjs
     \<noteq> map_option (\<lambda>c. extractFrontendFilesFromResponse c Nextjs)
          (spec_normalize frontendFields (JString []))"
  by (simp add: spec_normalize_def normalizeBy_def parseAIResponse_def parseAIFrontendResponse_def)

text \<open>
  Claim C2, amended.  For every response value, \<open>parseAIResponse\<close> and
  \<open>parseAIFrontendResponse\<close> extract the files from the text that the normaliser of the
  specification selects when only non-empty strings count: of an object the first field, in
  the order \<open>generatedCode\<close>, \<open>code\<close>, \<open>message\<close>, \<open>data\<close>, \<open>content\<close>, \<open>result\<close> (backend) or
  \<open>code\<close>, \<open>generatedCode\<close>, \<open>content\<close>, \<open>data\<close>, \<open>result\<close>, \<open>message\<close> (frontend), that holds
  a non-empty string; a non-empty string itself; and failure for every other value (an
  array, a number, a boolean, null, the empty string, an object without such a field).
\<close>

theorem normalizer_nonempty_strings:
  "parseAIResponse v b =
     map_option (\<lambda>c. extractFilesFromResponse c b) (spec_normalize_nonempty backendFields v) \<and>
   parseAIFrontendResponse v f =
     map_option (\<lambda>c. extractFrontendFilesFromResponse c f) (spec_normalize_nonempty frontendFields v)"
  by (simp add: backend_normalize frontend_normalize)

section \<open>The primary-file rule\<close>

lemma sublist_before_separator:
  assumes d: "d \<notin> set pat" and e: "\<not> sublist pat e"
  shows "sublist pat (st @ d # e) \<longleftrightarrow> sublist pat st"
proof
  assume "sublist pat st"
  then obtain a c where "st = a @ pat @ c" by (auto simp add: sublist_def)
  then have "st @ d # e = a @ pat @ (c @ d # e)" by simp
  then show "sublist pat (st @ d # e)" unfolding sublist_def by blast
next
  assume "sublist pat (st @ d # e)"
  then obtain a c where eq: "st @ d # e = a @ pat @ c" by (auto simp add: sublist_def)
  then show "sublist pat st"
  proof (cases "length a + length pat \<le> length st")
    case True
    from eq have "take (length a + length pat) (st @ d # e) = a @ pat" by simp
    with True have "take (length a + length pat) st = a @ pat" by simp
    then have "st = a @ pat @ drop (length a + length pat) st"
      by (metis append_take_drop_id append.assoc)
    then show ?thesis unfolding sublist_def by blast
  next
    case False
    have "length st < length a"
    proof (rule ccontr)
      assume "\<not> length st < length a"
      then have i: "length a \<le> length st" "length st - length a < length pat" using False by auto
      have "(st @ d # e) ! length st = d" by simp
      moreover have "(a @ pat @ c) ! length st = pat ! (length st - length a)"
        using i by (simp add: nth_append)
      ultimately have "d = pat ! (length st - length a)" using eq by simp
      with i d show False by auto
    qed
    then have le: "Suc (length st) - length a = 0" by simp
    have "drop (Suc (length st)) (st @ d # e) = drop (Suc (length st)) (a @ pat @ c)"
      using eq by simp
    then have "e = drop (Suc (length st)) a @ pat @ c" using le by simp
    then have "sublist pat e" unfolding sublist_def by blast
    with e show ?thesis by simp
  qed
qed

lemma endsWith_split: "endsWith name ext \<Longrightarrow> name = take (length name - length ext) name @ ext"
  by (auto simp add: endsWith_def suffix_def)

lemma stem_includes:
  assumes "endsWith name (d # e)" "d \<notin> set pat" "\<not> sublist pat e"
  shows "includes_str (take (length name - length (d # e)) name) pat = includes_str name pat"
proof -
  let ?st = "take (length name - length (d # e)) name"
  from assms(1) have "name = ?st @ d # e" by (rule endsWith_split)
  then have "sublist pat name = sublist pat (?st @ d # e)" by simp
  also have "\<dots> = sublist pat ?st" using assms(2,3) by (rule sublist_before_separator)
  finally show ?thesis by (simp add: includes_str_def)
qed

lemma isMainFile_spec: "isMainFile name b = spec_isPrimaryBackend b name"
proof (cases b)
  case Motoko
  have "includes_str (take (length name - length (js ''.mo'')) name) (js ''main'') = includes_str name (js ''main'')"
    if "endsWith name (js ''.mo'')"
    using that stem_includes [of name "0x2E" "js ''mo''" "js ''main''"]
    by (simp add: js_def sublist_code)
  with Motoko show ?thesis
    by (auto simp add: isMainFile_def spec_isPrimaryBackend_def spec_isPrimary_def)
next
  case Rust
  have "includes_str (take (length name - length (js ''.rs'')) name) (js ''lib'') = includes_str name (js ''lib'')"
    if "endsWith name (js ''.rs'')"
    using that stem_includes [of name "0x2E" "js ''rs''" "js ''lib''"]
    by (simp add: js_def sublist_code)
  with Rust show ?thesis
    by (auto simp add: isMainFile_def spec_isPrimaryBackend_def spec_isPrimary_def)
qed

text \<open>
  Claim C6, as stated, fails for the frontend stacks.  \<open>utils.tsx\<close> is a primary file for
  nextjs although its stem contains none of the main stems, \<open>page.css\<close> is one although
  its extension is not a source extension, and \<open>utils.jsx\<close> is one for react.
\<close>

theorem frontend_primary_counterexample:
  "isMainAppFile (js ''utils.tsx'') Nextjs \<and> \<not> spec_isPrimaryFrontend Nextjs (js ''utils.tsx'') \<and>
   isMainAppFile (js ''page.css'') Nextjs \<and> \<not> spec_isPrimaryFrontend Nextjs (js ''page.css'') \<and>
   isMainAppFile (js ''utils.jsx'') React \<and> \<not> spec_isPrimaryFrontend React (js ''utils.jsx'')"
  by (simp add: isMainAppFile_def spec_isPrimaryFrontend_def spec_isPrimary_def string_eval)

text \<open>
  Claim C6, amended.  For a backend stack, a file name is primary exactly when it ends in
  the source extension of the stack (\<open>.mo\<close>, \<open>.rs\<close>) and is the canonical main file name
  or has a stem that contains the main stem (\<open>main\<close>, \<open>lib\<close>).  For a frontend stack,
  a file name is primary exactly when it contains \<open>page.\<close> or \<open>App.\<close> (nextjs), or
  \<open>App.\<close> or \<open>app.\<close> (react), or ends in \<open>.tsx\<close> or \<open>.jsx\<close>: the extension alone or
  the name alone is enough.
\<close>

theorem primary_file_rule:
  "isMainFile name b = spec_isPrimaryBackend b name \<and>
   isMainAppFile name Nextjs =
     (includes_str name (js ''page.'') \<or> includes_str name (js ''App.'') \<or>
      endsWith name (js ''.tsx'') \<or> endsWith name (js ''.jsx'')) \<and>
   isMainAppFile name React =
     (includes_str name (js ''App.'') \<or> includes_str name (js ''app.'') \<or>
      endsWith name (js ''.jsx'') \<or> endsWith name (js ''.tsx''))"
  by (simp add: isMainFile_spec) (simp add: isMainAppFile_def)

section \<open>Status writes\<close>

lemma buildBackendCode_log: "statusLog (snd (buildBackendCode oc s)) = statusLog s"
  by (simp add: buildBackendCode_def split: option.splits)

lemma buildBackendCode_fields:
  "status (snd (buildBackendCode oc s)) = status s \<and>
   projectPath (snd (buildBackendCode oc s)) = projectPath s \<and>
   error (snd (buildBackendCode oc s)) = error s"
  by (simp add: buildBackendCode_def split: option.splits)

lemma createFullBackend_writes:
  "statusLog (snd (createFullBackend oc s)) = statusLog s @ [CreatingProject, Error] \<and> \<not> fst (createFullBackend oc s) \<or>
   statusLog (snd (createFullBackend oc s)) = statusLog s @ [CreatingProject, BuildingBackend, Error] \<and> \<not> fst (createFullBackend oc s) \<or>
   statusLog (snd (createFullBackend oc s)) = statusLog s @ [CreatingProject, BuildingBackend, Completed]
     \<and> fst (createFullBackend oc s) \<and> \<not> falsyString (projectPath (snd (createFullBackend oc s)))"
proof -
  obtain g s' where b: "buildBackendCode oc (setStatus BuildingBackend ((setStatus CreatingProject s)\<lparr>projectPath := createDfxProject_result oc\<rparr>)) = (g, s')"
    by (cases "buildBackendCode oc (setStatus BuildingBackend ((setStatus CreatingProject s)\<lparr>projectPath := createDfxProject_result oc\<rparr>))")
  from buildBackendCode_log [of oc "setStatus BuildingBackend ((setStatus CreatingProject s)\<lparr>projectPath := createDfxProject_result oc\<rparr>)"]
       buildBackendCode_fields [of oc "setStatus BuildingBackend ((setStatus CreatingProject s)\<lparr>projectPath := createDfxProject_result oc\<rparr>)"] b
  have l: "statusLog s' = statusLog s @ [CreatingProject, BuildingBackend]"
    and p: "projectPath s' = createDfxProject_result oc"
    by (simp_all add: setStatus_def)
  show ?thesis
    using b l p by (simp add: createFullBackend_def Let_def setStatus_def)
qed

text \<open>
  Claim C7, as stated, fails.  In a build in which every step succeeds, the pipeline writes
  creating-project, building-backend, completed, building-frontend, building-frontend,
  completed: a step from building-backend to completed, a write after completed, and a
  step backward.
\<close>

theorem status_writes_counterexample:
  "statusLog (snd (executeBuildPipeline okOutcomes (createBuildSession (js ''build_1'') demoConfig)))
     = [CreatingProject, BuildingBackend, Completed, BuildingFrontend, BuildingFrontend, Completed] \<and>
   \<not> allWrites stepWrite Pending
       (statusLog (snd (executeBuildPipeline okOutcomes (createBuildSession (js ''build_1'') demoConfig))))"
proof -
  have p: "parseAIResponse (JObject [(js ''generatedCode'', JString (js ''fn x(){}''))]) Rust \<noteq> None"
    by (simp add: parseAIResponse_def stringProp_def js_def)
  have q: "parseAIFrontendResponse (JString (js ''export default 1'')) React \<noteq> None"
    by (simp add: parseAIFrontendResponse_def js_def)
  have l: "statusLog (snd (executeBuildPipeline okOutcomes (createBuildSession (js ''build_1'') demoConfig)))
     = [CreatingProject, BuildingBackend, Completed, BuildingFrontend, BuildingFrontend, Completed]"
    using p q
    by (auto simp add: executeBuildPipeline_def createFullBackend_def createFullFrontend_def
        buildBackendCode_def buildFrontendCode_def okOutcomes_def demoConfig_def
        createBuildSession_def setStatus_def falsyString_def Let_def js_def split: option.splits)
  show ?thesis unfolding l by (simp add: stepWrite_def terminal_def)
qed

text \<open>
  Claim C7, amended.  On a pending session, every status write of \<open>createFullBackend\<close>
  diverts the session to error or moves it forward along the chain (the last one from
  building-backend directly to completed), never backward, and \<open>createFullBackend\<close> writes
  nothing after it has written completed or error.  \<open>executeBuildPipeline\<close> as a whole
  writes one of three sequences: creating-project, error, error; creating-project,
  building-backend, error, error; or creating-project, building-backend, completed,
  building-frontend, building-frontend, completed.
\<close>

theorem backend_status_writes:
  assumes "status s = Pending"
  shows "allWrites forwardWrite (status s)
           (drop (length (statusLog s)) (statusLog (snd (createFullBackend oc s)))) \<and>
         (statusLog (snd (executeBuildPipeline oc s)) = statusLog s @ [CreatingProject, Error, Error] \<or>
          statusLog (snd (executeBuildPipeline oc s)) = statusLog s @ [CreatingProject, BuildingBackend, Error, Error] \<or>
          statusLog (snd (executeBuildPipeline oc s)) =
            statusLog s @ [CreatingProject, BuildingBackend, Completed, BuildingFrontend, BuildingFrontend, Completed])"
proof
  show "allWrites forwardWrite (status s)
           (drop (length (statusLog s)) (statusLog (snd (createFullBackend oc s))))"
    using createFullBackend_writes [of oc s] assms
    by (auto simp add: forwardWrite_def terminal_def)
next
  obtain ok s' where c: "createFullBackend oc s = (ok, s')" by (cases "createFullBackend oc s")
  show "statusLog (snd (executeBuildPipeline oc s)) = statusLog s @ [CreatingProject, Error, Error] \<or>
          statusLog (snd (executeBuildPipeline oc s)) = statusLog s @ [CreatingProject, BuildingBackend, Error, Error] \<or>
          statusLog (snd (executeBuildPipeline oc s)) =
            statusLog s @ [CreatingProject, BuildingBackend, Completed, BuildingFrontend, BuildingFrontend, Completed]"
    using createFullBackend_writes [of oc s] c
    by (auto simp add: executeBuildPipeline_def createFullFrontend_def setStatus_def Let_def)
qed

theorem backend_status_writes_witness:
  "status (createBuildSession (js ''build_1'') demoConfig) = Pending \<and>
   allWrites forwardWrite Pending
     (statusLog (snd (createFullBackend okOutcomes (createBuildSession (js ''build_1'') demoConfig))))"
proof -
  have h: "status (createBuildSession (js ''build_1'') demoConfig) = Pending"
    by (simp add: createBuildSession_def)
  from backend_status_writes [OF h, of okOutcomes] h show ?thesis
    by (simp add: createBuildSession_def)
qed

section \<open>Properties of the code cleaner\<close>

subsection \<open>trim\<close>

lemma isWhiteSpace_LF: "isWhiteSpace LF"
  by (simp add: isWhiteSpace_def)

lemma sublist_trim: "sublist (trim s) s"
proof -
  have "sublist (trim s) (dropWhile isWhiteSpace s)"
    by (simp add: trim_def sublist_rev_left)
  moreover have "sublist (dropWhile isWhiteSpace s) s" by simp
  ultimately show ?thesis by (rule sublist_order.order.trans)
qed

lemma trim_last: "trim s \<noteq> [] \<Longrightarrow> \<not> isWhiteSpace (last (trim s))"
  using hd_dropWhile [of isWhiteSpace "rev (dropWhile isWhiteSpace s)"]
  by (simp add: trim_def last_rev)

lemma trim_hd: "trim s \<noteq> [] \<Longrightarrow> \<not> isWhiteSpace (hd (trim s))"
proof -
  assume n: "trim s \<noteq> []"
  let ?u = "dropWhile isWhiteSpace s"
  from n have u: "?u \<noteq> []" by (cases "?u = []") (simp_all add: trim_def)
  have "suffix (dropWhile isWhiteSpace (rev ?u)) (rev ?u)" by (rule suffix_dropWhile)
  then obtain a where a: "rev ?u = a @ dropWhile isWhiteSpace (rev ?u)" by (auto simp add: suffix_def)
  from n have d: "dropWhile isWhiteSpace (rev ?u) \<noteq> []" by (simp add: trim_def)
  have "hd (trim s) = last (dropWhile isWhiteSpace (rev ?u))"
    by (simp add: trim_def hd_rev)
  also have "\<dots> = last (rev ?u)" using a d by (metis last_appendR)
  also have "\<dots> = hd ?u" by (simp add: last_rev)
  finally show ?thesis using hd_dropWhile [of isWhiteSpace s] u by simp
qed

lemma trim_fixed:
  assumes "t = [] \<or> (\<not> isWhiteSpace (hd t) \<and> \<not> isWhiteSpace (last t))"
  shows "trim (t @ [LF]) = t"
proof (cases "t = []")
  case True
  then show ?thesis by (simp add: trim_def isWhiteSpace_LF)
next
  case False
  with assms have h: "\<not> isWhiteSpace (hd t)" and l: "\<not> isWhiteSpace (last t)" by auto
  from False h have "dropWhile isWhiteSpace (t @ [LF]) = t @ [LF]"
    by (cases t) simp_all
  moreover from False l have "dropWhile isWhiteSpace (rev t) = rev t"
    by (simp add: dropWhile_eq_self_iff hd_rev)
  ultimately show ?thesis by (simp add: trim_def isWhiteSpace_LF)
qed

lemma trim_trim_LF: "trim (trim s @ [LF]) = trim s"
  using trim_hd [of s] trim_last [of s] by (intro trim_fixed) auto

lemma trim_not_endsWith_LF: "\<not> endsWith (trim s) [LF]"
proof
  assume "endsWith (trim s) [LF]"
  then obtain a where a: "trim s = a @ [LF]" by (auto simp add: endsWith_def suffix_def)
  then have "trim s \<noteq> []" "last (trim s) = LF" by simp_all
  with trim_last [of s] isWhiteSpace_LF show False by simp
qed

subsection \<open>replaceAll\<close>

lemma replaceAll_absent: "pat \<noteq> [] \<Longrightarrow> hd pat \<notin> set s \<Longrightarrow> replaceAll pat rep s = s"
proof (induction s)
  case Nil
  then show ?case by simp
next
  case (Cons x xs)
  then have "\<not> prefix pat (x # xs)" by (cases pat) auto
  with Cons show ?case by simp
qed

lemma replaceAll_single_removed: "r \<noteq> c \<Longrightarrow> c \<notin> set (replaceAll [c] [r] s)"
  by (induction s) auto

text \<open>A pair of code units that does not occur in a string does not appear by a replacement.\<close>

lemma replaceAll_head:
  "replaceAll pat [r] (y # ys) = z # zs \<Longrightarrow> z = r \<or> z = y"
  by (auto split: if_splits)

lemma sublist_pair_Cons:
  "sublist [p, q] (x # xs) \<longleftrightarrow> (x = p \<and> prefix [q] xs) \<or> sublist [p, q] xs"
  by (auto simp add: sublist_Cons_right)

lemma pair_absent_drop: "\<not> sublist [p, q] s \<Longrightarrow> \<not> sublist [p, q] (drop n s)"
  using sublist_drop [of n s] sublist_order.order.trans by blast

lemma replaceAll_keeps_pair_absent:
  assumes "r \<noteq> p" "r \<noteq> q"
  shows "\<not> sublist [p, q] s \<Longrightarrow> \<not> sublist [p, q] (replaceAll pat [r] s)"
proof (induction pat "[r]" s rule: replaceAll.induct)
  case (1 pat)
  then show ?case by simp
next
  case (2 pat x xs)
  show ?case
  proof (cases "pat \<noteq> [] \<and> prefix pat (x # xs)")
    case True
    from "2.prems" have "\<not> sublist [p, q] (drop (length pat) (x # xs))" by (rule pair_absent_drop)
    with True "2.hyps"(1) have "\<not> sublist [p, q] (replaceAll pat [r] (drop (length pat) (x # xs)))"
      by blast
    moreover from True have "replaceAll pat [r] (x # xs) = r # replaceAll pat [r] (drop (length pat) (x # xs))"
      by simp
    ultimately show ?thesis using assms by (simp add: sublist_pair_Cons)
  next
    case False
    from "2.prems" have t: "\<not> sublist [p, q] xs" and h: "\<not> (x = p \<and> prefix [q] xs)"
      by (simp_all add: sublist_pair_Cons)
    from False "2.hyps"(2) t have i: "\<not> sublist [p, q] (replaceAll pat [r] xs)" by blast
    from False have e: "replaceAll pat [r] (x # xs) = x # replaceAll pat [r] xs" by auto
    have "\<not> (x = p \<and> prefix [q] (replaceAll pat [r] xs))"
    proof
      assume a: "x = p \<and> prefix [q] (replaceAll pat [r] xs)"
      then obtain zs where z: "replaceAll pat [r] xs = q # zs" by (auto simp add: prefix_def)
      then obtain y ys where y: "xs = y # ys" by (cases xs) auto
      with z have "q = r \<or> q = y" using replaceAll_head by blast
      with assms have "q = y" by simp
      with a y h show False by simp
    qed
    with i e show ?thesis by (simp add: sublist_pair_Cons)
  qed
qed

lemma replaceAll_removes_pair:
  assumes "r \<noteq> p" "r \<noteq> q"
  shows "\<not> sublist [p, q] (replaceAll [p, q] [r] s)"
proof (induction "[p, q]" "[r]" s rule: replaceAll.induct)
  case 1
  then show ?case by simp
next
  case (2 x xs)
  show ?case
  proof (cases "prefix [p, q] (x # xs)")
    case True
    with "2.hyps"(1) have "\<not> sublist [p, q] (replaceAll [p, q] [r] (drop 2 (x # xs)))" by simp
    moreover from True have "replaceAll [p, q] [r] (x # xs) = r # replaceAll [p, q] [r] (drop 2 (x # xs))"
      by simp
    ultimately show ?thesis using assms by (simp add: sublist_pair_Cons)
  next
    case False
    with "2.hyps"(2) have i: "\<not> sublist [p, q] (replaceAll [p, q] [r] xs)" by simp
    from False have e: "replaceAll [p, q] [r] (x # xs) = x # replaceAll [p, q] [r] xs" by auto
    have "\<not> (x = p \<and> prefix [q] (replaceAll [p, q] [r] xs))"
    proof
      assume a: "x = p \<and> prefix [q] (replaceAll [p, q] [r] xs)"
      then obtain zs where z: "replaceAll [p, q] [r] xs = q # zs" by (auto simp add: prefix_def)
      then obtain y ys where y: "xs = y # ys" by (cases xs) auto
      with z have "q = r \<or> q = y" using replaceAll_head by blast
      with assms have "q = y" by simp
      with a y False show False by simp
    qed
    with i e show ?thesis by (simp add: sublist_pair_Cons)
  qed
qed

lemma replaceAll_double_keeps_pair_absent:
  assumes "q \<noteq> p"
  shows "\<not> sublist [p, q] s \<Longrightarrow> \<not> sublist [p, q] (replaceAll [p, p] [p] s)"
proof (induction "[p, p]" "[p]" s rule: replaceAll.induct)
  case 1
  then show ?case by simp
next
  case (2 x xs)
  from "2.prems" have t: "\<not> sublist [p, q] xs" and h: "\<not> (x = p \<and> prefix [q] xs)"
    by (simp_all add: sublist_pair_Cons)
  show ?case
  proof (cases "prefix [p, p] (x # xs)")
    case True
    then obtain ys where ys: "x = p" "xs = p # ys" by (cases xs) auto
    from t ys have t': "\<not> sublist [p, q] ys" and h': "\<not> prefix [q] ys"
      by (simp_all add: sublist_pair_Cons)
    from True "2.hyps"(1) ys t' have i: "\<not> sublist [p, q] (replaceAll [p, p] [p] ys)" by simp
    have "\<not> prefix [q] (replaceAll [p, p] [p] ys)"
    proof
      assume "prefix [q] (replaceAll [p, p] [p] ys)"
      then obtain zs where z: "replaceAll [p, p] [p] ys = q # zs" by (auto simp add: prefix_def)
      then obtain y ys' where y: "ys = y # ys'" by (cases ys) auto
      with z have "q = p \<or> q = y" using replaceAll_head by blast
      with assms have "q = y" by simp
      with y h' show False by simp
    qed
    moreover from ys have "replaceAll [p, p] [p] (x # xs) = p # replaceAll [p, p] [p] ys" by simp
    ultimately show ?thesis using i assms by (simp add: sublist_pair_Cons)
  next
    case False
    with "2.hyps"(2) t have i: "\<not> sublist [p, q] (replaceAll [p, p] [p] xs)" by simp
    from False have e: "replaceAll [p, p] [p] (x # xs) = x # replaceAll [p, p] [p] xs" by auto
    have "\<not> (x = p \<and> prefix [q] (replaceAll [p, p] [p] xs))"
    proof
      assume a: "x = p \<and> prefix [q] (replaceAll [p, p] [p] xs)"
      then obtain zs where z: "replaceAll [p, p] [p] xs = q # zs" by (auto simp add: prefix_def)
      then obtain y ys where y: "xs = y # ys" by (cases xs) auto
      with z have "q = p \<or> q = y" using replaceAll_head by blast
      with assms have "q = y" by simp
      with a y h show False by simp
    qed
    with i e show ?thesis by (simp add: sublist_pair_Cons)
  qed
qed

lemma unescape_no_escaped_LF: "\<not> sublist [BACKSLASH, LETTER_n] (unescape s)"
  unfolding unescape_def
  by (intro replaceAll_double_keeps_pair_absent replaceAll_keeps_pair_absent replaceAll_removes_pair)
     simp_all

subsection \<open>Global matching\<close>

lemma suffix_Cons_iff: "suffix t (x # xs) \<longleftrightarrow> t = x # xs \<or> suffix t xs"
  by (auto simp add: suffix_def Cons_eq_append_conv)

lemma matchAll_Nil_iff: "matchAll re s = [] \<longleftrightarrow> (\<forall>t. suffix t s \<longrightarrow> re t = None)"
  by (induction s) (auto simp add: suffix_Cons_iff split: option.splits)

lemma matchAll_first:
  "matchAll re s = m # rest \<Longrightarrow> \<exists>t n. suffix t s \<and> re t = Some n \<and> m = take n t"
proof (induction s)
  case Nil
  then show ?case by (auto split: option.splits)
next
  case (Cons x xs)
  show ?case
  proof (cases "re (x # xs)")
    case None
    with Cons obtain t n where "suffix t xs" "re t = Some n" "m = take n t" by auto
    then show ?thesis by (auto simp add: suffix_Cons_iff)
  next
    case (Some n)
    with Cons.prems have "m = take n (x # xs)" by simp
    with Some show ?thesis by (auto simp add: suffix_Cons_iff)
  qed
qed

subsection \<open>The fence matcher\<close>

lemma fence_length: "length fence = 3"
  by (simp add: fence_def)

lemma lazyFence_append: "lazyFence r \<noteq> None \<Longrightarrow> lazyFence (r @ b) \<noteq> None"
proof (induction r)
  case Nil
  then show ?case by simp
next
  case (Cons x xs)
  show ?case
  proof (cases "prefix fence (x # xs)")
    case True
    then have "prefix fence ((x # xs) @ b)" by (rule prefix_prefix)
    then show ?thesis by simp
  next
    case False
    with Cons.prems have "lazyFence xs \<noteq> None" by auto
    then have "lazyFence (xs @ b) \<noteq> None" by (rule Cons.IH)
    then show ?thesis by auto
  qed
qed

lemma fenceAt_append: "fenceAt hs t \<noteq> None \<Longrightarrow> fenceAt hs (t @ b) \<noteq> None"
proof (induction hs)
  case Nil
  then show ?case by simp
next
  case (Cons h hs)
  show ?case
  proof (cases "prefix h t \<and> lazyFence (drop (length h) t) \<noteq> None")
    case True
    then have "prefix h (t @ b)" "length h \<le> length t" by (auto simp add: prefix_length_le)
    moreover from True have "lazyFence (drop (length h) t @ b) \<noteq> None" by (intro lazyFence_append) simp
    ultimately show ?thesis by (auto split: option.splits)
  next
    case False
    with Cons.prems have "fenceAt hs t \<noteq> None" by (auto split: if_splits option.splits)
    then have "fenceAt hs (t @ b) \<noteq> None" by (rule Cons.IH)
    then show ?thesis by (auto split: option.splits)
  qed
qed

lemma prefix_fence_snoc: "c \<noteq> BACKTICK \<Longrightarrow> prefix fence (r @ [c]) \<Longrightarrow> prefix fence r"
  by (auto simp add: fence_def)

lemma lazyFence_snoc: "c \<noteq> BACKTICK \<Longrightarrow> lazyFence (r @ [c]) \<noteq> None \<Longrightarrow> lazyFence r \<noteq> None"
proof (induction r)
  case Nil
  then show ?case by (simp add: fence_def)
next
  case (Cons x xs)
  show ?case
  proof (cases "prefix fence (x # xs)")
    case True
    then show ?thesis by simp
  next
    case False
    with Cons.prems(1) have "\<not> prefix fence ((x # xs) @ [c])" using prefix_fence_snoc by blast
    with Cons.prems have "lazyFence (xs @ [c]) \<noteq> None" by auto
    with Cons.IH Cons.prems(1) have "lazyFence xs \<noteq> None" by blast
    with False show ?thesis by auto
  qed
qed

lemma fenceAt_snoc: "c \<noteq> BACKTICK \<Longrightarrow> fenceAt hs (t @ [c]) \<noteq> None \<Longrightarrow> fenceAt hs t \<noteq> None"
proof (induction hs)
  case Nil
  then show ?case by simp
next
  case (Cons h hs)
  show ?case
  proof (cases "prefix h (t @ [c]) \<and> lazyFence (drop (length h) (t @ [c])) \<noteq> None")
    case True
    then have "h \<noteq> t @ [c]" by auto
    with True have p: "prefix h t" by simp
    then have "drop (length h) (t @ [c]) = drop (length h) t @ [c]" by (simp add: prefix_length_le)
    with True Cons.prems(1) have "lazyFence (drop (length h) t) \<noteq> None" using lazyFence_snoc by metis
    with p show ?thesis by (auto split: option.splits)
  next
    case False
    with Cons.prems have "fenceAt hs (t @ [c]) \<noteq> None" by (auto split: if_splits option.splits)
    with Cons.IH Cons.prems(1) have "fenceAt hs t \<noteq> None" by blast
    then show ?thesis by (auto split: option.splits)
  qed
qed

lemma fenceAt_Nil: "fenceAt hs [] = None"
  by (induction hs) auto

lemma fenceAt_Some:
  "fenceAt hs s = Some n \<Longrightarrow>
   \<exists>h k. h \<in> set hs \<and> prefix h s \<and> lazyFence (drop (length h) s) = Some k \<and> n = length h + k + 3"
  by (induction hs) (auto split: if_splits option.splits)

lemma no_match_sublist:
  assumes "matchAll (fenceAt hs) s = []" "sublist u s"
  shows "matchAll (fenceAt hs) u = []"
proof -
  have "fenceAt hs t = None" if "suffix t u" for t
  proof -
    from assms(2) obtain a b where s: "s = a @ u @ b" by (auto simp add: sublist_def)
    from that obtain a' where "u = a' @ t" by (auto simp add: suffix_def)
    with s have "suffix (t @ b) s" by (simp add: suffix_def)
    with assms(1) have "fenceAt hs (t @ b) = None" by (simp add: matchAll_Nil_iff)
    then show ?thesis using fenceAt_append by blast
  qed
  then show ?thesis by (simp add: matchAll_Nil_iff)
qed

lemma no_match_snoc:
  assumes "c \<noteq> BACKTICK" "matchAll (fenceAt hs) u = []"
  shows "matchAll (fenceAt hs) (u @ [c]) = []"
proof -
  have "fenceAt hs t = None" if "suffix t (u @ [c])" for t
  proof (cases "t = []")
    case True
    then show ?thesis by (simp add: fenceAt_Nil)
  next
    case False
    with that obtain t' where t: "t = t' @ [c]" "suffix t' u" by auto
    with assms(2) have "fenceAt hs t' = None" by (simp add: matchAll_Nil_iff)
    with t assms(1) show ?thesis using fenceAt_snoc by blast
  qed
  then show ?thesis by (simp add: matchAll_Nil_iff)
qed

lemma no_fence_no_match:
  assumes "list_all (prefix fence) hs" "\<not> sublist fence s"
  shows "matchAll (fenceAt hs) s = []"
proof -
  have "fenceAt hs t = None" if "suffix t s" for t
  proof (rule ccontr)
    assume "fenceAt hs t \<noteq> None"
    then obtain n where "fenceAt hs t = Some n" by auto
    then obtain h where "h \<in> set hs" "prefix h t" using fenceAt_Some by blast
    with assms(1) have "prefix fence t" by (auto simp add: list_all_iff)
    then have "sublist fence t" by simp
    moreover from that have "sublist t s" by simp
    ultimately have "sublist fence s" by (rule sublist_order.order.trans)
    with assms(2) show False by simp
  qed
  then show ?thesis by (simp add: matchAll_Nil_iff)
qed

lemma headers_start_with_fence: "list_all (prefix fence) (headers tags a b)"
  by (auto simp add: headers_def list_all_iff)

lemma headers_form:
  "plainTags tags \<Longrightarrow> h \<in> set (headers tags a b) \<Longrightarrow> \<exists>w. h = fence @ w \<and> BACKTICK \<notin> set w"
  by (auto simp add: headers_def plainTags_def list_all_iff split: if_splits)

lemma lazyFence_Some:
  "lazyFence r = Some k \<Longrightarrow> take (k + 3) r = take k r @ fence \<and> \<not> sublist fence (take k r)"
proof (induction r arbitrary: k)
  case Nil
  then show ?case by simp
next
  case (Cons x xs)
  show ?case
  proof (cases "prefix fence (x # xs)")
    case True
    with Cons.prems have k: "k = 0" by simp
    from True obtain rest where "x # xs = fence @ rest" by (auto simp add: prefix_def)
    then have "take 3 (x # xs) = fence" by (simp add: fence_length)
    with k show ?thesis by (simp add: fence_def)
  next
    case False
    with Cons.prems obtain k' where k': "lazyFence xs = Some k'" "k = Suc k'" by auto
    from Cons.IH [OF k'(1)] have t: "take (k' + 3) xs = take k' xs @ fence"
      and n: "\<not> sublist fence (take k' xs)" by simp_all
    have "\<not> prefix fence (x # take k' xs)"
    proof
      assume "prefix fence (x # take k' xs)"
      moreover have "prefix (x # take k' xs) (x # xs)" by (simp add: take_is_prefix)
      ultimately have "prefix fence (x # xs)" by (rule prefix_order.trans)
      with False show False by simp
    qed
    with n have "\<not> sublist fence (x # take k' xs)" by (simp add: sublist_Cons_right)
    moreover have "take (Suc (k' + 3)) (x # xs) = x # take (k' + 3) xs" by (rule take_Suc_Cons)
    moreover have "k + 3 = Suc (k' + 3)" using k'(2) by simp
    ultimately show ?thesis using t k'(2) by (simp only: take_Suc_Cons append_Cons simp_thms)
  qed
qed

lemma no_fence_after_plain: "BACKTICK \<notin> set w \<Longrightarrow> sublist fence (w @ c) \<Longrightarrow> sublist fence c"
  by (induction w) (auto simp add: sublist_Cons_right fence_def)

lemma match_structure:
  assumes "plainTags tags" "fenceAt (headers tags a b) s = Some n"
  shows "\<exists>h z. h \<in> set (headers tags a b) \<and> prefix h (take n s) \<and>
               take n s = fence @ z @ fence \<and> \<not> sublist fence z"
proof -
  from fenceAt_Some [OF assms(2)] obtain h k where
    h: "h \<in> set (headers tags a b)" "prefix h s" and
    k: "lazyFence (drop (length h) s) = Some k" and n: "n = length h + k + 3" by blast
  from headers_form [OF assms(1) h(1)] obtain w where w: "h = fence @ w" "BACKTICK \<notin> set w" by blast
  let ?r = "drop (length h) s"
  from h(2) have s: "s = h @ ?r" by (auto simp add: prefix_def)
  from lazyFence_Some [OF k] have t: "take (k + 3) ?r = take k ?r @ fence"
    and f: "\<not> sublist fence (take k ?r)" by simp_all
  have "take n s = take n (h @ ?r)" using s by simp
  also have "\<dots> = h @ take (k + 3) ?r" using n by simp
  finally have m: "take n s = fence @ (w @ take k ?r) @ fence" using t w by simp
  from f w(2) have "\<not> sublist fence (w @ take k ?r)" using no_fence_after_plain by blast
  moreover from m w have "prefix h (take n s)" by simp
  ultimately show ?thesis using h(1) m by blast
qed

lemma replaceFirst_fenceAtEnd: "replaceFirst fenceAtEnd [] (u @ fence) = u"
proof (induction u)
  case Nil
  then show ?case by (simp add: fence_def fenceAtEnd_def)
next
  case (Cons x u)
  have "length (x # u @ fence) \<noteq> length fence" by simp
  then have "x # u @ fence \<noteq> fence" by metis
  with Cons show ?case by (simp add: fenceAtEnd_def)
qed

lemma headerAt_Some:
  "h \<in> set hs \<Longrightarrow> prefix h s \<Longrightarrow> \<exists>h'. h' \<in> set hs \<and> prefix h' s \<and> headerAt hs s = Some (length h')"
  by (induction hs) auto

lemma strip_match:
  assumes "plainTags tags" "h \<in> set (headers tags a b)" "prefix h m" "m = fence @ z @ fence"
  shows "\<exists>j. replaceFirst fenceAtEnd [] (replaceFirst (headerAt (headers tags a b)) [] m) = drop j z"
proof -
  from headerAt_Some [OF assms(2,3)] obtain h' where
    h': "h' \<in> set (headers tags a b)" "prefix h' m" "headerAt (headers tags a b) m = Some (length h')"
    by blast
  from headers_form [OF assms(1) h'(1)] obtain w where w: "h' = fence @ w" "BACKTICK \<notin> set w" by blast
  from h'(2) w(1) assms(4) have p: "prefix w (z @ fence)" by simp
  have le: "length w \<le> length z"
  proof (rule ccontr)
    assume "\<not> length w \<le> length z"
    then have l: "length z < length w" by simp
    from p obtain zs where "w @ zs = z @ fence" by (auto simp add: prefix_def)
    then have "w = take (length w) (z @ fence)" by (metis append_eq_conv_conj)
    then have "w ! length z = (z @ fence) ! length z" using l by (metis nth_take)
    then have "w ! length z = BACKTICK" by (simp add: fence_def)
    with l w(2) show False by (metis nth_mem)
  qed
  from assms(4) obtain m' where "m = BACKTICK # m'" by (simp add: fence_def)
  with h'(3) have "replaceFirst (headerAt (headers tags a b)) [] m = drop (length h') m" by simp
  also have "\<dots> = drop (length w) z @ fence" using w(1) assms(4) le by (simp add: fence_length)
  finally show ?thesis by (auto simp add: replaceFirst_fenceAtEnd)
qed

lemma removeMarkdownCodeBlocks_sublist_no_match:
  assumes "plainTags tags"
  shows "sublist (removeMarkdownCodeBlocks tags y) y \<and>
         matchAll (fenceAt (headers tags True True)) (removeMarkdownCodeBlocks tags y) = []"
proof (cases "matchAll (fenceAt (headers tags True True)) y")
  case Nil
  then show ?thesis by (simp add: removeMarkdownCodeBlocks_def)
next
  case (Cons m rest)
  from matchAll_first [OF Cons] obtain t n where
    t: "suffix t y" "fenceAt (headers tags True True) t = Some n" "m = take n t" by blast
  from match_structure [OF assms t(2)] t(3) obtain h z where
    h: "h \<in> set (headers tags True True)" "prefix h m" and
    m: "m = fence @ z @ fence" and z: "\<not> sublist fence z" by auto
  from strip_match [OF assms h m] obtain j where
    j: "replaceFirst fenceAtEnd [] (replaceFirst (headerAt (headers tags True True)) [] m) = drop j z"
    by blast
  with Cons have x: "removeMarkdownCodeBlocks tags y = drop j z"
    by (simp add: removeMarkdownCodeBlocks_def)
  have "sublist (drop j z) z" by simp
  moreover have "sublist z m" using m by simp
  moreover have "sublist m t" using t(3) by simp
  moreover have "sublist t y" using t(1) by simp
  ultimately have s: "sublist (drop j z) y" using sublist_order.order.trans by blast
  have "\<not> sublist fence (drop j z)"
    using z sublist_drop [of j z] sublist_order.order.trans by blast
  then have "matchAll (fenceAt (headers tags True True)) (drop j z) = []"
    using headers_start_with_fence by (intro no_fence_no_match)
  with s x show ?thesis by simp
qed

subsection \<open>The cleaner\<close>

lemma plainTags_backend: "plainTags backendStripTags"
  by (simp add: plainTags_def backendStripTags_def js_def)

lemma plainTags_frontend: "plainTags frontendStripTags"
  by (simp add: plainTags_def frontendStripTags_def js_def)

lemma slice_sublist: "sublist (slice s b e) s"
proof -
  have "sublist (take n (drop m s)) (drop m s)" for n m by simp
  moreover have "sublist (drop m s) s" for m by simp
  ultimately have "sublist (take n (drop m s)) s" for n m
    using sublist_order.order.trans by blast
  then show ?thesis by (simp add: slice_def Let_def)
qed

lemma endsWith_snoc: "endsWith (t @ [c]) [d] \<longleftrightarrow> c = d"
  by (auto simp add: endsWith_def)

lemma replaceAll_length:
  "length rep \<le> length pat \<Longrightarrow> length (replaceAll pat rep s) \<le> length s"
proof (induction pat rep s rule: replaceAll.induct)
  case (1 pat rep)
  then show ?case by simp
next
  case (2 pat rep x xs)
  show ?case
  proof (cases "pat \<noteq> [] \<and> prefix pat (x # xs)")
    case True
    then have "prefix pat (x # xs)" by simp
    then have l: "length pat \<le> length (x # xs)" by (rule prefix_length_le)
    from True "2.IH"(1) "2.prems"
    have "length (replaceAll pat rep (drop (length pat) (x # xs))) \<le> length (x # xs) - length pat"
      by simp
    moreover from True
    have "replaceAll pat rep (x # xs) = rep @ replaceAll pat rep (drop (length pat) (x # xs))"
      by simp
    ultimately show ?thesis using l "2.prems" by simp
  next
    case False
    then have "replaceAll pat rep (x # xs) = x # replaceAll pat rep xs" by auto
    with False "2.IH"(2) "2.prems" show ?thesis by auto
  qed
qed

lemma unescape_length: "length (unescape s) \<le> length s"
proof -
  have "length (replaceAll [a, b] [r] t) \<le> length t" for a b r :: jschar and t
    by (rule replaceAll_length) simp
  then show ?thesis unfolding unescape_def by (meson order_trans)
qed

text \<open>The text that reaches the last step of the \<open>try\<close> block.\<close>

lemma tryClean_decompose:
  "\<exists>q. tryClean maxLen tags s = concatStrings maxLen (trim (removeMarkdownCodeBlocks tags q)) [LF] \<and>
       CR \<notin> set q \<and> \<not> sublist [BACKSLASH, LETTER_n] q \<and> length q \<le> length s"
proof -
  define u where "u = (if includes_str s [BACKSLASH, LETTER_n] then unescape s else s)"
  define nl where "nl = replaceAll [CR] [LF] (replaceAll [CR, LF] [LF] u)"
  define q where "q =
    (if (startsWith nl [DQUOTE] \<and> endsWith nl [DQUOTE]) \<or>
        (startsWith nl [SQUOTE] \<and> endsWith nl [SQUOTE])
     then slice nl 1 (-1) else nl)"
  have c: "tryClean maxLen tags s = concatStrings maxLen (trim (removeMarkdownCodeBlocks tags q)) [LF]"
    by (simp add: tryClean_def Let_def u_def nl_def q_def trim_not_endsWith_LF)
  have "\<not> sublist [BACKSLASH, LETTER_n] u"
    by (simp add: u_def unescape_no_escaped_LF includes_str_def)
  then have n: "\<not> sublist [BACKSLASH, LETTER_n] nl"
    unfolding nl_def by (intro replaceAll_keeps_pair_absent) simp_all
  have r: "CR \<notin> set nl" unfolding nl_def by (intro replaceAll_single_removed) simp
  have s: "sublist q nl" by (simp add: q_def slice_sublist)
  have "length u \<le> length s" by (simp add: u_def unescape_length)
  moreover have "length (replaceAll [CR, LF] [LF] u) \<le> length u"
    by (rule replaceAll_length) simp
  moreover have "length nl \<le> length (replaceAll [CR, LF] [LF] u)"
    unfolding nl_def by (rule replaceAll_length) simp
  moreover from s have "length q \<le> length nl" by (rule sublist_length_le)
  ultimately have l: "length q \<le> length s" by simp
  from s r have "CR \<notin> set q" using set_mono_sublist by blast
  moreover from s n have "\<not> sublist [BACKSLASH, LETTER_n] q"
    using sublist_order.order.trans by blast
  ultimately show ?thesis using c l by blast
qed

text \<open>
  The two outcomes of the cleaner: the \<open>catch\<close> branch, taken only for a raw text of at
  least the maximal length, or a trimmed text followed by a line feed.
\<close>

lemma clean_result:
  assumes "plainTags tags"
  shows "(cleanGeneratedCode maxLen tags s = s \<and> maxLen \<le> length s) \<or>
         (\<exists>t. cleanGeneratedCode maxLen tags s = t @ [LF] \<and> length t < maxLen \<and>
               trim (t @ [LF]) = t \<and> \<not> endsWith t [LF] \<and>
               CR \<notin> set t \<and> \<not> sublist [BACKSLASH, LETTER_n] (t @ [LF]) \<and>
               matchAll (fenceAt (headers tags True True)) (t @ [LF]) = [])"
proof -
  from tryClean_decompose [of maxLen tags s] obtain q where
    c: "tryClean maxLen tags s = concatStrings maxLen (trim (removeMarkdownCodeBlocks tags q)) [LF]" and
    r: "CR \<notin> set q" and n: "\<not> sublist [BACKSLASH, LETTER_n] q" and
    l: "length q \<le> length s" by blast
  let ?x = "removeMarkdownCodeBlocks tags q"
  from removeMarkdownCodeBlocks_sublist_no_match [OF assms, of q]
  have xq: "sublist ?x q" and xm: "matchAll (fenceAt (headers tags True True)) ?x = []" by simp_all
  have tx: "sublist (trim ?x) ?x" by (rule sublist_trim)
  from tx xq have tq: "sublist (trim ?x) q" by (rule sublist_order.order.trans)
  from tq l have tl: "length (trim ?x) \<le> length s" using sublist_length_le order_trans by blast
  show ?thesis
  proof (cases "length (trim ?x) < maxLen")
    case False
    with c have "cleanGeneratedCode maxLen tags s = s"
      by (simp add: cleanGeneratedCode_def concatStrings_def)
    with False tl show ?thesis by simp
  next
    case True
    with c have e: "cleanGeneratedCode maxLen tags s = trim ?x @ [LF]"
      by (simp add: cleanGeneratedCode_def concatStrings_def)
    from tq r have 1: "CR \<notin> set (trim ?x)" using set_mono_sublist by blast
    from tq n have "\<not> sublist [BACKSLASH, LETTER_n] (trim ?x)"
      using sublist_order.order.trans by blast
    then have 2: "\<not> sublist [BACKSLASH, LETTER_n] (trim ?x @ [LF])"
      by (simp add: sublist_snoc)
    from xm tx have "matchAll (fenceAt (headers tags True True)) (trim ?x) = []"
      by (rule no_match_sublist)
    then have 3: "matchAll (fenceAt (headers tags True True)) (trim ?x @ [LF]) = []"
      by (intro no_match_snoc) simp_all
    from e True 1 2 3 trim_trim_LF [of ?x] trim_not_endsWith_LF [of ?x] show ?thesis by blast
  qed
qed

lemma clean_fixed:
  assumes "length t < maxLen" "trim (t @ [LF]) = t" "\<not> endsWith t [LF]" "CR \<notin> set t"
    "\<not> sublist [BACKSLASH, LETTER_n] (t @ [LF])"
    "matchAll (fenceAt (headers tags True True)) (t @ [LF]) = []"
  shows "cleanGeneratedCode maxLen tags (t @ [LF]) = t @ [LF]"
proof -
  from assms(4) have "replaceAll [CR, LF] [LF] (t @ [LF]) = t @ [LF]"
    by (intro replaceAll_absent) simp_all
  moreover from assms(4) have "replaceAll [CR] [LF] (t @ [LF]) = t @ [LF]"
    by (intro replaceAll_absent) simp_all
  moreover from assms(6) have "removeMarkdownCodeBlocks tags (t @ [LF]) = t @ [LF]"
    by (simp add: removeMarkdownCodeBlocks_def)
  ultimately show ?thesis using assms(1,2,3,5)
    by (simp add: cleanGeneratedCode_def tryClean_def concatStrings_def Let_def
        includes_str_def endsWith_snoc)
qed

lemma clean_idempotent:
  assumes "plainTags tags"
  shows "cleanGeneratedCode maxLen tags (cleanGeneratedCode maxLen tags s)
           = cleanGeneratedCode maxLen tags s"
proof -
  from clean_result [OF assms, of maxLen s] consider
    (raw) "cleanGeneratedCode maxLen tags s = s"
  | (cleaned) t where "cleanGeneratedCode maxLen tags s = t @ [LF]" "length t < maxLen"
      "trim (t @ [LF]) = t" "\<not> endsWith t [LF]" "CR \<notin> set t"
      "\<not> sublist [BACKSLASH, LETTER_n] (t @ [LF])"
      "matchAll (fenceAt (headers tags True True)) (t @ [LF]) = []"
    by blast
  then show ?thesis
  proof cases
    case raw
    then show ?thesis by simp
  next
    case cleaned
    then show ?thesis using clean_fixed by simp
  qed
qed






text \<open>
  Claim C4.  \<open>cleanGeneratedCode\<close> of either builder is idempotent: cleaning a cleaned
  text gives the same text.
\<close>

theorem cleaner_idempotent:
  "BackendBuilder_cleanGeneratedCode (BackendBuilder_cleanGeneratedCode s)
     = BackendBuilder_cleanGeneratedCode s \<and>
   FrontendBuilder_cleanGeneratedCode (FrontendBuilder_cleanGeneratedCode s)
     = FrontendBuilder_cleanGeneratedCode s"
  by (simp add: BackendBuilder_cleanGeneratedCode_def FrontendBuilder_cleanGeneratedCode_def
      clean_idempotent plainTags_backend plainTags_frontend)

subsection \<open>No section survives the cleaner\<close>

lemma lazyFence_prepend: "lazyFence r \<noteq> None \<Longrightarrow> lazyFence (w @ r) \<noteq> None"
  by (induction w) auto

lemma fenceAt_header:
  "h \<in> set hs \<Longrightarrow> prefix h u \<Longrightarrow> lazyFence (drop (length h) u) \<noteq> None \<Longrightarrow> fenceAt hs u \<noteq> None"
  by (induction hs) (auto split: option.splits)

lemma no_strip_match_no_section:
  assumes "matchAll (fenceAt (headers tags True True)) s = []"
  shows "matchAll (fenceAt (headers tags' a b)) s = []"
proof -
  have "fenceAt (headers tags' a b) u = None" if u: "suffix u s" for u
  proof (rule ccontr)
    assume "fenceAt (headers tags' a b) u \<noteq> None"
    then obtain n where "fenceAt (headers tags' a b) u = Some n" by auto
    from fenceAt_Some [OF this] obtain h k where
      h: "h \<in> set (headers tags' a b)" "prefix h u"
         "lazyFence (drop (length h) u) = Some k" by blast
    from h(1) headers_start_with_fence [of tags' a b]
    have "prefix fence h" by (auto simp add: list_all_iff)
    then obtain w where w: "h = fence @ w" by (auto simp add: prefix_def)
    from h(2) w obtain r where r: "u = fence @ w @ r" by (auto simp add: prefix_def)
    then have "drop (length h) u = r" using w by simp
    with h(3) have "lazyFence (w @ r) \<noteq> None" by (intro lazyFence_prepend) simp
    with r have "lazyFence (drop (length fence) u) \<noteq> None" by simp
    moreover have "prefix fence u" using r by simp
    moreover have "fence \<in> set (headers tags True True)" by (simp add: headers_def)
    ultimately have "fenceAt (headers tags True True) u \<noteq> None" by (intro fenceAt_header)
    with assms u show False by (simp add: matchAll_Nil_iff)
  qed
  then show ?thesis by (simp add: matchAll_Nil_iff)
qed

lemma cleaned_no_code_blocks:
  assumes "length s < maxStringLength"
  shows "BackendBuilder_codeBlocks (BackendBuilder_cleanGeneratedCode s) = [] \<and>
         FrontendBuilder_codeBlocks (FrontendBuilder_cleanGeneratedCode s) = []"
proof -
  from clean_result [OF plainTags_backend, of maxStringLength s] assms obtain t where
    t: "cleanGeneratedCode maxStringLength backendStripTags s = t @ [LF]" and
    m: "matchAll (fenceAt (headers backendStripTags True True)) (t @ [LF]) = []" by auto
  from m have "matchAll (fenceAt (headers backendSectionTags False False)) (t @ [LF]) = []"
    by (rule no_strip_match_no_section)
  with t have b: "BackendBuilder_codeBlocks (BackendBuilder_cleanGeneratedCode s) = []"
    by (simp only: BackendBuilder_codeBlocks_def BackendBuilder_cleanGeneratedCode_def)
  from clean_result [OF plainTags_frontend, of maxStringLength s] assms obtain t' where
    t': "cleanGeneratedCode maxStringLength frontendStripTags s = t' @ [LF]" and
    m': "matchAll (fenceAt (headers frontendStripTags True True)) (t' @ [LF]) = []" by auto
  from m' have "matchAll (fenceAt (headers frontendSectionTags False False)) (t' @ [LF]) = []"
    by (rule no_strip_match_no_section)
  with t' have "FrontendBuilder_codeBlocks (FrontendBuilder_cleanGeneratedCode s) = []"
    by (simp only: FrontendBuilder_codeBlocks_def FrontendBuilder_cleanGeneratedCode_def)
  with b show ?thesis by simp
qed

lemma extraction_always_single_file:
  assumes "length s < maxStringLength"
  shows "extractFilesFromResponse s b =
     \<lparr>mainFile = \<lparr>filename = (if b = Motoko then js ''main.mo'' else js ''lib.rs''),
                   content = BackendBuilder_cleanGeneratedCode s\<rparr>,
      candidFile = None, additionalFiles = None\<rparr> \<and>
   extractFrontendFilesFromResponse s f =
     \<lparr>appFile = \<lparr>filename = (if f = Nextjs then js ''page.tsx'' else js ''App.jsx''),
                  content = FrontendBuilder_cleanGeneratedCode s\<rparr>,
      stylesFile = None, additionalFrontendFiles = None\<rparr>"
  using cleaned_no_code_blocks [OF assms]
  by (simp add: extractFilesFromResponse_def extractFrontendFilesFromResponse_def
      BackendBuilder_extractMarkdownSections_def FrontendBuilder_extractMarkdownSections_def Let_def)

end
